(* ===== verification/React_Prelude.thy ===== *)
theory React_Prelude
  imports Main
begin

text \<open>
  Shared vocabulary of the development: the JavaScript semantics that the three React
  components of the repository rely on and that are not part of the repository itself.
  \<^item> \<open>js_map_st\<close> and \<open>js_map_idx\<close> are \<open>Array.prototype.map\<close> with the
    \<open>(element, index)\<close> callback; \<open>js_map_st\<close> threads a store through the callback,
    because a callback that writes an object literal allocates.
  \<^item> \<open>js_filter_idx\<close> is \<open>Array.prototype.filter\<close> with the \<open>(element, index)\<close>
    callback.
  \<^item> \<open>jsval\<close> is a JavaScript value as React's \<open>useState\<close> and \<open>useEffect\<close> see
    it: \<open>null\<close>, \<open>undefined\<close> or a reference to an object (with its identity and its
    content); \<open>js_same\<close> is \<open>Object.is\<close>, which React uses for the bail-out of a
    state setter and for effect dependencies; \<open>js_strict_null\<close> is \<open>x === null\<close>
    and \<open>js_loose_null\<close> is \<open>x == null\<close>.
  The lemmas here are the generic facts about these built-ins that the component theories
  share; the ones that rewrite are collected in \<open>js_simps\<close>.
\<close>

named_theorems js_simps "evaluation of the JavaScript built-ins used by the components"

type_synonym addr = nat

subsection \<open>Array methods with an index callback\<close>

fun js_map_st :: "('s \<Rightarrow> 'a \<Rightarrow> nat \<Rightarrow> 'b \<times> 's) \<Rightarrow> nat \<Rightarrow> 'a list \<Rightarrow> 's \<Rightarrow> 'b list \<times> 's" where
  "js_map_st f i [] s = ([], s)"
| "js_map_st f i (x # xs) s =
     (let (y, s1) = f s x i; (ys, s2) = js_map_st f (Suc i) xs s1 in (y # ys, s2))"

fun js_map_idx :: "('a \<Rightarrow> nat \<Rightarrow> 'b) \<Rightarrow> nat \<Rightarrow> 'a list \<Rightarrow> 'b list" where
  "js_map_idx f i [] = []"
| "js_map_idx f i (x # xs) = f x i # js_map_idx f (Suc i) xs"

fun js_filter_idx :: "('a \<Rightarrow> nat \<Rightarrow> bool) \<Rightarrow> nat \<Rightarrow> 'a list \<Rightarrow> 'a list" where
  "js_filter_idx p i [] = []"
| "js_filter_idx p i (x # xs) =
     (if p x i then x # js_filter_idx p (Suc i) xs else js_filter_idx p (Suc i) xs)"

subsection \<open>JavaScript values seen by React\<close>

datatype 'a jsval = JNull | JUndefined | JObj addr 'a

fun js_same :: "'a jsval \<Rightarrow> 'a jsval \<Rightarrow> bool" where
  "js_same JNull JNull = True"
| "js_same JUndefined JUndefined = True"
| "js_same (JObj a _) (JObj b _) = (a = b)"
| "js_same _ _ = False"

fun js_strict_null :: "'a jsval \<Rightarrow> bool" where
  "js_strict_null JNull = True"
| "js_strict_null _ = False"

fun js_loose_null :: "'a jsval \<Rightarrow> bool" where
  "js_loose_null JNull = True"
| "js_loose_null JUndefined = True"
| "js_loose_null (JObj _ _) = False"

subsection \<open>Facts about the array methods\<close>

lemma length_js_map_st [simp]: "length (fst (js_map_st f i xs s)) = length xs"
proof (induction xs arbitrary: i s)
  case Nil
  then show ?case by simp
next
  case (Cons x xs)
  obtain y s1 where f: "f s x i = (y, s1)" by fastforce
  obtain ys s2 where r: "js_map_st f (Suc i) xs s1 = (ys, s2)" by fastforce
  from Cons.IH [of "Suc i" s1] r have "length ys = length xs" by simp
  with f r show ?case by simp
qed

lemma length_js_map_idx [simp]: "length (js_map_idx f i xs) = length xs"
  by (induction xs arbitrary: i) auto

lemma nth_js_map_idx [simp]:
  "j < length xs \<Longrightarrow> js_map_idx f i xs ! j = f (xs ! j) (i + j)"
proof (induction xs arbitrary: i j)
  case Nil
  then show ?case by simp
next
  case (Cons x xs)
  then show ?case by (cases j) auto
qed

text \<open>
  A \<open>map\<close> whose callback is the identity (and leaves the store alone) at every index
  but one replaces exactly that element; an index outside the array leaves it as it is.
  The loop lemmas are stated with the distinguished index as an offset \<open>i + m\<close> from the
  loop counter, so that the induction follows the array.
\<close>

lemma js_map_st_before:
  assumes other: "\<And>s x k. k \<noteq> n \<Longrightarrow> f s x k = (x, s)"
  shows "n < i \<Longrightarrow> js_map_st f i xs s = (xs, s)"
proof (induction xs arbitrary: i)
  case Nil
  then show ?case by simp
next
  case (Cons x xs)
  then have "f s x i = (x, s)" using other [of i s x] by simp
  with Cons show ?case by simp
qed

lemma js_map_st_offset:
  assumes other: "\<And>s x k. k \<noteq> n \<Longrightarrow> f s x k = (x, s)"
  shows "n = i + m \<Longrightarrow> js_map_st f i xs s =
    (if m < length xs then (let (y, s') = f s (xs ! m) n in (xs[m := y], s')) else (xs, s))"
proof (induction xs arbitrary: i m)
  case Nil
  then show ?case by simp
next
  case (Cons x xs)
  show ?case
  proof (cases m)
    case 0
    obtain y s' where f: "f s x i = (y, s')" by fastforce
    have "js_map_st f (Suc i) xs s' = (xs, s')"
      using js_map_st_before [OF other] Cons.prems 0 by simp
    with Cons.prems 0 f show ?thesis by simp
  next
    case (Suc m')
    with Cons.prems have "f s x i = (x, s)" using other [of i s x] by simp
    moreover have "js_map_st f (Suc i) xs s =
      (if m' < length xs then (let (y, s') = f s (xs ! m') n in (xs[m' := y], s')) else (xs, s))"
      using Cons.IH [of "Suc i" m'] Cons.prems Suc by simp
    ultimately show ?thesis using Suc by (auto split: prod.splits)
  qed
qed

lemma js_map_st_single [js_simps]:
  assumes other: "\<And>s x k. k \<noteq> n \<Longrightarrow> f s x k = (x, s)"
  shows "js_map_st f 0 xs s =
    (if n < length xs then (let (y, s') = f s (xs ! n) n in (xs[n := y], s')) else (xs, s))"
  using js_map_st_offset [OF other, where i = 0 and m = n] by simp

lemma js_filter_idx_before:
  "n < i \<Longrightarrow> js_filter_idx (\<lambda>_ k. k \<noteq> n) i xs = xs"
  by (induction xs arbitrary: i) auto

lemma js_filter_idx_offset:
  "n = i + m \<Longrightarrow> js_filter_idx (\<lambda>_ k. k \<noteq> n) i xs =
    (if m < length xs then take m xs @ drop (Suc m) xs else xs)"
proof (induction xs arbitrary: i m)
  case Nil
  then show ?case by simp
next
  case (Cons x xs)
  show ?case
  proof (cases m)
    case 0
    with Cons.prems show ?thesis by (simp add: js_filter_idx_before)
  next
    case (Suc m')
    with Cons.prems have "n = Suc i + m'" by simp
    then have "js_filter_idx (\<lambda>_ k. k \<noteq> n) (Suc i) xs =
      (if m' < length xs then take m' xs @ drop (Suc m') xs else xs)"
      using Cons.IH [of "Suc i" m'] Cons.prems by simp
    with Cons.prems Suc show ?thesis by simp
  qed
qed

lemma js_filter_idx_other [js_simps]:
  "js_filter_idx (\<lambda>_ k. k \<noteq> n) 0 xs =
    (if n < length xs then take n xs @ drop (Suc n) xs else xs)"
  using js_filter_idx_offset [of n 0 n xs] by simp

lemma length_js_filter_idx_other [simp]:
  "n < length xs \<Longrightarrow> length (js_filter_idx (\<lambda>_ k. k \<noteq> n) 0 xs) = length xs - 1"
  by (simp add: js_filter_idx_other)

subsection \<open>Lists of references read through a store\<close>

lemma map_the_upd_other:
  "a \<notin> set xs \<Longrightarrow> map (\<lambda>r. the ((m(a \<mapsto> v)) r)) xs = map (\<lambda>r. the (m r)) xs"
  by (induction xs) auto

lemma set_list_update_subset: "set (xs[i := y]) \<subseteq> insert y (set xs)"
  by (metis insert_subset set_update_subset_insert subset_insertI)

subsection \<open>Facts about values\<close>

lemma js_same_refl [simp]: "js_same v v"
  by (cases v) auto

lemma js_same_sym: "js_same v w = js_same w v"
  by (cases v; cases w) auto

lemma js_same_null_iff [simp]:
  "js_same JNull v = (v = JNull)" "js_same v JNull = (v = JNull)"
  by (cases v; simp)+

lemma js_same_obj_iff [simp]:
  "js_same (JObj a x) v = (\<exists>y. v = JObj a y)"
  by (cases v) auto

lemma js_strict_null_iff [simp]: "js_strict_null v = (v = JNull)"
  by (cases v) auto

lemma js_loose_null_iff [simp]: "js_loose_null v = (v = JNull \<or> v = JUndefined)"
  by (cases v) auto

subsection \<open>Fresh addresses\<close>

lemma dom_below_fresh [simp]:
  assumes below: "dom m \<subseteq> {..<n::nat}"
  shows "m n = None"
proof (rule ccontr)
  assume "m n \<noteq> None"
  then have "n \<in> dom m" by auto
  with below have "n \<in> {..<n}" by (rule subsetD)
  then show False by simp
qed

lemma dom_below_mono: "dom m \<subseteq> {..<n::nat} \<Longrightarrow> dom m \<subseteq> {..<Suc n}"
  by auto

end
