(* ===== verification/Js_Heap.thy ===== *)
theory Js_Heap
  imports React_Prelude
begin

text \<open>
  The part of the JavaScript heap the to-do list touches: plain objects (of a content
  type \<open>'o\<close>, a record of their properties) and arrays whose elements are references
  to such objects. Both live in one address space with a next-free counter, as the object
  stores of the IMP object language do, so that a reference is an object identity: two
  values are \<open>===\<close> (and \<open>Object.is\<close>) exactly when their addresses are equal.
  \<^item> \<open>reserve\<close> creates an empty object or array and returns its address (an array
    literal or \<open>Array.prototype.map\<close> creates its result array before it evaluates
    any element);
  \<^item> \<open>new_obj\<close> evaluates an object literal;
  \<^item> \<open>set_arr\<close> fills an array created by \<open>reserve\<close>.
  \<open>heap_wf\<close> is the heap invariant (every address in use is below the counter, an
  address is an object or an array, never both, and arrays only hold live objects);
  \<open>heap_ext h h'\<close> says that \<open>h'\<close> only adds to \<open>h\<close>: every object and array of
  \<open>h\<close> is still there with the same content. This is what "copy on write" promises.
\<close>

record 'o heap =
  objs :: "addr \<rightharpoonup> 'o"
  arrs :: "addr \<rightharpoonup> addr list"
  next_addr :: addr

definition empty_heap :: "'o heap" where
  "empty_heap = \<lparr>objs = Map.empty, arrs = Map.empty, next_addr = 0\<rparr>"

definition reserve :: "'o heap \<Rightarrow> addr \<times> 'o heap" where
  "reserve h = (next_addr h, h\<lparr>next_addr := Suc (next_addr h)\<rparr>)"

definition new_obj :: "'o \<Rightarrow> 'o heap \<Rightarrow> addr \<times> 'o heap" where
  "new_obj v h =
     (next_addr h, h\<lparr>objs := (objs h)(next_addr h \<mapsto> v), next_addr := Suc (next_addr h)\<rparr>)"

definition set_arr :: "addr \<Rightarrow> addr list \<Rightarrow> 'o heap \<Rightarrow> 'o heap" where
  "set_arr a xs h = h\<lparr>arrs := (arrs h)(a \<mapsto> xs)\<rparr>"

definition heap_wf :: "'o heap \<Rightarrow> bool" where
  "heap_wf h \<longleftrightarrow>
     dom (objs h) \<subseteq> {..<next_addr h} \<and> dom (arrs h) \<subseteq> {..<next_addr h} \<and>
     dom (objs h) \<inter> dom (arrs h) = {} \<and>
     (\<forall>a xs. arrs h a = Some xs \<longrightarrow> set xs \<subseteq> dom (objs h))"

definition heap_ext :: "'o heap \<Rightarrow> 'o heap \<Rightarrow> bool" where
  "heap_ext h h' \<longleftrightarrow>
     objs h \<subseteq>\<^sub>m objs h' \<and> arrs h \<subseteq>\<^sub>m arrs h' \<and> next_addr h \<le> next_addr h'"

named_theorems heap_simps "effect of the heap operations on the fields of the heap"

lemma reserve_simps [heap_simps]:
  "fst (reserve h) = next_addr h"
  "objs (snd (reserve h)) = objs h"
  "arrs (snd (reserve h)) = arrs h"
  "next_addr (snd (reserve h)) = Suc (next_addr h)"
  by (simp_all add: reserve_def)

lemma new_obj_simps [heap_simps]:
  "fst (new_obj v h) = next_addr h"
  "objs (snd (new_obj v h)) = (objs h)(next_addr h \<mapsto> v)"
  "arrs (snd (new_obj v h)) = arrs h"
  "next_addr (snd (new_obj v h)) = Suc (next_addr h)"
  by (simp_all add: new_obj_def)

lemma set_arr_simps [heap_simps]:
  "objs (set_arr a xs h) = objs h"
  "arrs (set_arr a xs h) = (arrs h)(a \<mapsto> xs)"
  "next_addr (set_arr a xs h) = next_addr h"
  by (simp_all add: set_arr_def)

subsection \<open>Well-formedness\<close>

lemma heap_wf_empty: "heap_wf empty_heap"
  by (simp add: heap_wf_def empty_heap_def)

lemma heap_wf_fresh [simp]:
  "heap_wf h \<Longrightarrow> objs h (next_addr h) = None"
  "heap_wf h \<Longrightarrow> arrs h (next_addr h) = None"
  by (simp_all add: heap_wf_def)

lemma heap_wf_arr_objs:
  "heap_wf h \<Longrightarrow> arrs h a = Some xs \<Longrightarrow> set xs \<subseteq> dom (objs h)"
  by (simp add: heap_wf_def)

lemma heap_wf_arr_below:
  "heap_wf h \<Longrightarrow> arrs h a = Some xs \<Longrightarrow> a < next_addr h"
  unfolding heap_wf_def by blast

lemma heap_wf_obj_below:
  "heap_wf h \<Longrightarrow> objs h a = Some v \<Longrightarrow> a < next_addr h"
  unfolding heap_wf_def by blast

lemma heap_wf_reserve: "heap_wf h \<Longrightarrow> heap_wf (snd (reserve h))"
  unfolding heap_wf_def reserve_simps by auto

lemma heap_wf_new_obj: "heap_wf h \<Longrightarrow> heap_wf (snd (new_obj v h))"
  unfolding heap_wf_def new_obj_simps by (auto 0 3)

lemma heap_wf_set_arr:
  assumes "heap_wf h" "a < next_addr h" "objs h a = None" "set xs \<subseteq> dom (objs h)"
  shows "heap_wf (set_arr a xs h)"
  using assms unfolding heap_wf_def set_arr_simps by auto

subsection \<open>Heap extension\<close>

lemma heap_ext_refl [simp]: "heap_ext h h"
  by (simp add: heap_ext_def)

lemma heap_ext_trans: "heap_ext h1 h2 \<Longrightarrow> heap_ext h2 h3 \<Longrightarrow> heap_ext h1 h3"
  unfolding heap_ext_def by (meson map_le_trans order_trans)

lemma map_le_fresh_upd: "m a = None \<Longrightarrow> m \<subseteq>\<^sub>m m(a \<mapsto> v)"
  by (auto simp: map_le_def)

lemma heap_ext_reserve: "heap_ext h (snd (reserve h))"
  by (simp add: heap_ext_def reserve_simps)

lemma heap_ext_new_obj: "heap_wf h \<Longrightarrow> heap_ext h (snd (new_obj v h))"
  by (simp add: heap_ext_def new_obj_simps map_le_fresh_upd)

lemma heap_ext_set_arr: "arrs h a = None \<Longrightarrow> heap_ext h (set_arr a xs h)"
  by (simp add: heap_ext_def set_arr_simps map_le_fresh_upd)

lemma heap_ext_objs: "heap_ext h h' \<Longrightarrow> objs h a = Some v \<Longrightarrow> objs h' a = Some v"
  unfolding heap_ext_def by (metis domI map_le_def)

lemma heap_ext_arrs: "heap_ext h h' \<Longrightarrow> arrs h a = Some xs \<Longrightarrow> arrs h' a = Some xs"
  unfolding heap_ext_def by (metis domI map_le_def)

lemma heap_ext_next: "heap_ext h h' \<Longrightarrow> next_addr h \<le> next_addr h'"
  by (simp add: heap_ext_def)

end
