(* ===== verification/TodoList.thy ===== *)
theory TodoList
  imports Js_Heap
begin

text \<open>
  The local to-do list, \<open>src/my-react-app/src/components/TodoList.jsx\<close>.
  The component keeps two \<open>useState\<close> cells: \<open>todoList\<close>, a reference to an array of
  references to \<open>{title, isDone}\<close> objects, and \<open>inputValue\<close>, the text of the input
  box. Its handlers never write into an existing array or object: each builds a new array
  (\<open>[...todoList, x]\<close>, \<open>todoList.map\<close>, \<open>todoList.filter\<close>) and hands it to the
  setter. React decides whether to re-render by \<open>Object.is\<close> on the new state value,
  so the record keeps a flag \<open>rerender\<close> that a setter raises when its value is not
  identical to the current one.
  The theory holds the state and the handlers, the abstraction \<open>todos\<close> to the list of
  to-do values, the invariant \<open>todo_inv\<close>, and the correctness of each handler with
  respect to the list operations of the spec (append, toggle, remove), the freshness of
  every new array, reference sharing of untouched elements, and copy-on-write (the heap
  only grows). It also shows that the component refines the spec's local editor
  \<open>spec_todo_step\<close> over any sequence of events.
\<close>

record todo =
  title :: string
  isDone :: bool

record todo_comp =
  heap :: "todo heap"
  todoList :: addr
  inputValue :: string
  rerender :: bool

subsection \<open>State setters\<close>

text \<open>\<open>setTodoList\<close> and \<open>setInputValue\<close>: React's bail-out compares with \<open>Object.is\<close>,
  which is address equality on arrays and value equality on strings.\<close>

definition setTodoList :: "addr \<Rightarrow> todo_comp \<Rightarrow> todo_comp" where
  "setTodoList a s = (if a = todoList s then s else s\<lparr>todoList := a, rerender := True\<rparr>)"

definition setInputValue :: "string \<Rightarrow> todo_comp \<Rightarrow> todo_comp" where
  "setInputValue v s = (if v = inputValue s then s else s\<lparr>inputValue := v, rerender := True\<rparr>)"

subsection \<open>Initial state\<close>

text \<open>\<open>useState([{title: '123', isDone: false}, {title: '44444', isDone: false}])\<close> and
  \<open>useState("")\<close>; the array literal is created before its two object literals.\<close>

definition todo_init :: todo_comp where
  "todo_init =
    (let (a, h1) = reserve empty_heap;
         (o1, h2) = new_obj \<lparr>title = ''123'', isDone = False\<rparr> h1;
         (o2, h3) = new_obj \<lparr>title = ''44444'', isDone = False\<rparr> h2
     in \<lparr>heap = set_arr a [o1, o2] h3, todoList = a, inputValue = '''', rerender = False\<rparr>)"

subsection \<open>Handlers\<close>

text \<open>\<open>handleAddTodo\<close>: \<open>setTodoList([...todoList, {title: inputValue, isDone: false}])\<close>
  then \<open>setInputValue("")\<close>.\<close>

definition handleAddTodo :: "todo_comp \<Rightarrow> todo_comp" where
  "handleAddTodo s =
    (let h = heap s;
         xs = the (arrs h (todoList s));
         (a, h1) = reserve h;
         (t, h2) = new_obj \<lparr>title = inputValue s, isDone = False\<rparr> h1;
         h3 = set_arr a (xs @ [t]) h2
     in setInputValue '''' (setTodoList a (s\<lparr>heap := h3\<rparr>)))"

text \<open>The callback of \<open>handleToggleTodo\<close>:
  \<open>(todo, i) => i === index ? {...todo, isDone: !todo.isDone} : todo\<close>.\<close>

definition toggle_cb :: "nat \<Rightarrow> todo heap \<Rightarrow> addr \<Rightarrow> nat \<Rightarrow> addr \<times> todo heap" where
  "toggle_cb index h todo i =
    (if i = index
     then (let t = the (objs h todo) in new_obj (t\<lparr>isDone := \<not> isDone t\<rparr>) h)
     else (todo, h))"

definition handleToggleTodo :: "nat \<Rightarrow> todo_comp \<Rightarrow> todo_comp" where
  "handleToggleTodo index s =
    (let h = heap s;
         xs = the (arrs h (todoList s));
         (a, h1) = reserve h;
         (ys, h2) = js_map_st (toggle_cb index) 0 xs h1
     in setTodoList a (s\<lparr>heap := set_arr a ys h2\<rparr>))"

text \<open>\<open>handleDeleteTodo\<close>: \<open>todoList.filter((_, i) => i !== index)\<close>.\<close>

definition handleDeleteTodo :: "nat \<Rightarrow> todo_comp \<Rightarrow> todo_comp" where
  "handleDeleteTodo index s =
    (let h = heap s;
         xs = the (arrs h (todoList s));
         (a, h1) = reserve h;
         ys = js_filter_idx (\<lambda>_ i. i \<noteq> index) 0 xs
     in setTodoList a (s\<lparr>heap := set_arr a ys h1\<rparr>))"

subsection \<open>Events and render\<close>

text \<open>The events of the rendered page: typing into the input (\<open>onChange\<close>), the Add
  button and the two buttons of each item. React renders between two events, so
  \<open>todo_step\<close> starts each event with no re-render pending.\<close>

datatype todo_event = Change_input string | Add_todo | Toggle_todo nat | Delete_todo nat

fun todo_handle :: "todo_event \<Rightarrow> todo_comp \<Rightarrow> todo_comp" where
  "todo_handle (Change_input v) s = setInputValue v s"
| "todo_handle Add_todo s = handleAddTodo s"
| "todo_handle (Toggle_todo i) s = handleToggleTodo i s"
| "todo_handle (Delete_todo i) s = handleDeleteTodo i s"

definition todo_step :: "todo_comp \<Rightarrow> todo_event \<Rightarrow> todo_comp" where
  "todo_step s e = todo_handle e (s\<lparr>rerender := False\<rparr>)"

fun todo_run :: "todo_comp \<Rightarrow> todo_event list \<Rightarrow> todo_comp" where
  "todo_run s [] = s"
| "todo_run s (e # es) = todo_run (todo_step s e) es"

datatype toggle_label = Label_undo | Label_done

record todo_item_view =
  item_key :: nat
  item_title :: string
  struck :: bool
  toggle_label :: toggle_label

text \<open>The \<open><li>\<close> list of the render: key, title, line-through when done, and the
  label of the toggle button (\<open>Label_undo\<close> is the "not done" label shown on a done
  item, \<open>Label_done\<close> the "done" label).\<close>

definition render_todo :: "todo_comp \<Rightarrow> todo_item_view list" where
  "render_todo s =
    js_map_idx (\<lambda>r i. let t = the (objs (heap s) r) in
        \<lparr>item_key = i, item_title = title t, struck = isDone t,
         toggle_label = (if isDone t then Label_undo else Label_done)\<rparr>)
      0 (the (arrs (heap s) (todoList s)))"

subsection \<open>Abstraction and invariant\<close>

definition todo_elems :: "todo_comp \<Rightarrow> addr list" where
  "todo_elems s = the (arrs (heap s) (todoList s))"

definition todos :: "todo_comp \<Rightarrow> todo list" where
  "todos s = map (\<lambda>r. the (objs (heap s) r)) (todo_elems s)"

definition todo_inv :: "todo_comp \<Rightarrow> bool" where
  "todo_inv s \<longleftrightarrow> heap_wf (heap s) \<and> todoList s \<in> dom (arrs (heap s))"

inductive todo_reach :: "todo_comp \<Rightarrow> bool" where
  init: "todo_reach todo_init"
| step: "todo_reach s \<Longrightarrow> todo_reach (todo_step s e)"

text \<open>The list operations of the spec that the handlers implement.\<close>

definition spec_toggle :: "nat \<Rightarrow> todo list \<Rightarrow> todo list" where
  "spec_toggle i xs =
    (if i < length xs then xs[i := (xs ! i)\<lparr>isDone := \<not> isDone (xs ! i)\<rparr>] else xs)"

definition spec_remove :: "nat \<Rightarrow> 'a list \<Rightarrow> 'a list" where
  "spec_remove i xs = (if i < length xs then take i xs @ drop (Suc i) xs else xs)"

text \<open>The spec's local editor as an abstract machine over the list of to-do values and
  the text of the input box, and the abstraction of a component state to it.\<close>

fun spec_todo_step :: "todo list \<times> string \<Rightarrow> todo_event \<Rightarrow> todo list \<times> string" where
  "spec_todo_step (xs, v) (Change_input w) = (xs, w)"
| "spec_todo_step (xs, v) Add_todo = (xs @ [\<lparr>title = v, isDone = False\<rparr>], '''')"
| "spec_todo_step (xs, v) (Toggle_todo i) = (spec_toggle i xs, v)"
| "spec_todo_step (xs, v) (Delete_todo i) = (spec_remove i xs, v)"

definition todo_abs :: "todo_comp \<Rightarrow> todo list \<times> string" where
  "todo_abs s = (todos s, inputValue s)"

subsection \<open>Characterisation of the handlers\<close>

lemma todo_inv_below:
  "todo_inv s \<Longrightarrow> todoList s < next_addr (heap s)"
  unfolding todo_inv_def using heap_wf_arr_below by blast

lemma todo_inv_elems:
  "todo_inv s \<Longrightarrow> arrs (heap s) (todoList s) = Some (todo_elems s)"
  unfolding todo_inv_def todo_elems_def by auto

lemma todo_inv_elems_objs:
  "todo_inv s \<Longrightarrow> set (todo_elems s) \<subseteq> dom (objs (heap s))"
  using todo_inv_elems heap_wf_arr_objs unfolding todo_inv_def by blast

lemma handleAddTodo_eq:
  assumes "todo_inv s"
  defines "n \<equiv> next_addr (heap s)"
  shows "handleAddTodo s =
    s\<lparr>heap := (heap s)\<lparr>objs := (objs (heap s))(Suc n \<mapsto> \<lparr>title = inputValue s, isDone = False\<rparr>),
                       arrs := (arrs (heap s))(n \<mapsto> todo_elems s @ [Suc n]),
                       next_addr := Suc (Suc n)\<rparr>,
      todoList := n, inputValue := '''', rerender := True\<rparr>"
  using todo_inv_below [OF assms(1)]
  by (auto simp: n_def handleAddTodo_def setTodoList_def setInputValue_def Let_def
      reserve_def new_obj_def set_arr_def todo_elems_def)

lemma toggle_map_eq:
  "js_map_st (toggle_cb index) 0 xs h =
    (if index < length xs
     then (xs[index := next_addr h],
           snd (new_obj ((the (objs h (xs ! index)))\<lparr>isDone := \<not> isDone (the (objs h (xs ! index)))\<rparr>) h))
     else (xs, h))"
  by (simp add: js_map_st_single [of index "toggle_cb index"] toggle_cb_def Let_def new_obj_def)

lemma todo_elems_below:
  "todo_inv s \<Longrightarrow> r \<in> set (todo_elems s) \<Longrightarrow> r < next_addr (heap s)"
proof -
  assume inv: "todo_inv s" and r: "r \<in> set (todo_elems s)"
  from todo_inv_elems_objs [OF inv] r obtain v where "objs (heap s) r = Some v" by blast
  with inv show ?thesis unfolding todo_inv_def by (blast intro: heap_wf_obj_below)
qed

lemma handleToggleTodo_eq:
  assumes "todo_inv s"
  defines "n \<equiv> next_addr (heap s)" and "xs \<equiv> todo_elems s"
  shows "handleToggleTodo index s =
    (if index < length xs
     then s\<lparr>heap := (heap s)\<lparr>
            objs := (objs (heap s))(Suc n \<mapsto> (the (objs (heap s) (xs ! index)))\<lparr>isDone := \<not> isDone (the (objs (heap s) (xs ! index)))\<rparr>),
            arrs := (arrs (heap s))(n \<mapsto> xs[index := Suc n]),
            next_addr := Suc (Suc n)\<rparr>,
          todoList := n, rerender := True\<rparr>
     else s\<lparr>heap := (heap s)\<lparr>arrs := (arrs (heap s))(n \<mapsto> xs), next_addr := Suc n\<rparr>,
          todoList := n, rerender := True\<rparr>)"
  using todo_inv_below [OF assms(1)]
  by (auto simp: n_def xs_def handleToggleTodo_def setTodoList_def Let_def toggle_map_eq
      reserve_def new_obj_def set_arr_def todo_elems_def)

lemma handleDeleteTodo_eq:
  assumes "todo_inv s"
  defines "n \<equiv> next_addr (heap s)"
  shows "handleDeleteTodo index s =
    s\<lparr>heap := (heap s)\<lparr>arrs := (arrs (heap s))(n \<mapsto> spec_remove index (todo_elems s)),
                       next_addr := Suc n\<rparr>,
      todoList := n, rerender := True\<rparr>"
  using todo_inv_below [OF assms(1)]
  by (auto simp: n_def handleDeleteTodo_def setTodoList_def Let_def js_filter_idx_other
      spec_remove_def reserve_def set_arr_def todo_elems_def)

lemma todo_inv_setInputValue [simp]: "todo_inv (setInputValue v s) = todo_inv s"
  by (simp add: setInputValue_def todo_inv_def)

lemma todo_step_inv:
  assumes inv: "todo_inv s"
  shows "todo_inv (todo_step s e)"
proof -
  have inv': "todo_inv (s\<lparr>rerender := False\<rparr>)" using inv by (simp add: todo_inv_def)
  have wf: "heap_wf (heap s)" and objs: "set (todo_elems s) \<subseteq> dom (objs (heap s))"
    using inv todo_inv_elems_objs [OF inv] by (simp_all add: todo_inv_def)
  show ?thesis
  proof (cases e)
    case (Change_input v)
    with inv' show ?thesis by (simp add: todo_step_def)
  next
    case Add_todo
    with wf objs show ?thesis
      by (auto 0 3 simp: todo_step_def handleAddTodo_eq [OF inv'] todo_inv_def heap_wf_def todo_elems_def)
  next
    case (Toggle_todo i)
    have upd: "set ((todo_elems s)[i := Suc (next_addr (heap s))])
        \<subseteq> insert (Suc (next_addr (heap s))) (dom (objs (heap s)))"
      by (meson insert_mono objs order_trans set_list_update_subset)
    with Toggle_todo wf objs show ?thesis
      by (auto 0 3 simp: todo_step_def handleToggleTodo_eq [OF inv'] todo_inv_def heap_wf_def todo_elems_def)
  next
    case (Delete_todo i)
    with wf objs show ?thesis
      by (auto simp: todo_step_def handleDeleteTodo_eq [OF inv'] todo_inv_def heap_wf_def
          todo_elems_def spec_remove_def dest: in_set_takeD in_set_dropD)
  qed
qed

lemma todo_elems_rerender [simp]: "todo_elems (s\<lparr>rerender := b\<rparr>) = todo_elems s"
  by (simp add: todo_elems_def)

lemma todo_inv_fresh:
  "todo_inv s \<Longrightarrow> next_addr (heap s) \<notin> dom (arrs (heap s)) \<union> dom (objs (heap s))"
  "todo_inv s \<Longrightarrow> Suc (next_addr (heap s)) \<notin> dom (arrs (heap s)) \<union> dom (objs (heap s))"
  unfolding todo_inv_def heap_wf_def by auto

lemma todo_init_eq:
  "todo_init = \<lparr>heap = \<lparr>objs = [1 \<mapsto> \<lparr>title = ''123'', isDone = False\<rparr>,
                                2 \<mapsto> \<lparr>title = ''44444'', isDone = False\<rparr>],
                        arrs = [0 \<mapsto> [1, 2]], next_addr = 3\<rparr>,
                todoList = 0, inputValue = '''', rerender = False\<rparr>"
  by (simp add: todo_init_def reserve_def new_obj_def set_arr_def empty_heap_def numeral_2_eq_2)

lemma todos_init:
  "todos todo_init = [\<lparr>title = ''123'', isDone = False\<rparr>, \<lparr>title = ''44444'', isDone = False\<rparr>]"
  by (simp add: todo_init_eq todos_def todo_elems_def)

lemma todo_inv_init: "todo_inv todo_init"
  by (simp add: todo_inv_def todo_init_def heap_wf_def reserve_def new_obj_def set_arr_def
      empty_heap_def)

subsection \<open>The handlers on the abstraction\<close>

lemma toggle_todos:
  assumes "todo_inv s"
  shows "todos (handleToggleTodo i s) = spec_toggle i (todos s)"
proof -
  have "Suc (next_addr (heap s)) \<notin> set (todo_elems s)"
    using todo_elems_below [OF assms] by fastforce
  then show ?thesis
    by (simp add: handleToggleTodo_eq [OF assms] todos_def todo_elems_def spec_toggle_def
        map_the_upd_other map_update fun_upd_same del: fun_upd_apply)
qed

lemma delete_todos:
  assumes "todo_inv s"
  shows "todos (handleDeleteTodo i s) = spec_remove i (todos s)"
  by (simp add: handleDeleteTodo_eq [OF assms] todos_def todo_elems_def spec_remove_def
      take_map drop_map)

lemma add_todos:
  assumes "todo_inv s"
  shows "todos (handleAddTodo s) = todos s @ [\<lparr>title = inputValue s, isDone = False\<rparr>]
         \<and> inputValue (handleAddTodo s) = ''''"
proof -
  have "Suc (next_addr (heap s)) \<notin> set (todo_elems s)"
    using todo_elems_below [OF assms] by fastforce
  then show ?thesis
    by (simp add: handleAddTodo_eq [OF assms] todos_def todo_elems_def map_the_upd_other)
qed

lemma todos_rerender [simp]: "todos (s\<lparr>rerender := b\<rparr>) = todos s"
  by (simp add: todos_def)

lemma todo_inv_rerender [simp]: "todo_inv (s\<lparr>rerender := b\<rparr>) = todo_inv s"
  by (simp add: todo_inv_def)

lemma todos_setInputValue [simp]: "todos (setInputValue v s) = todos s"
  by (simp add: setInputValue_def todos_def todo_elems_def)

lemma inputValue_setInputValue [simp]: "inputValue (setInputValue v s) = v"
  by (simp add: setInputValue_def)

lemma inputValue_setTodoList [simp]: "inputValue (setTodoList a s) = inputValue s"
  by (simp add: setTodoList_def)

text \<open>One event of the page is one step of the abstract machine.\<close>

lemma todo_step_abs:
  assumes inv: "todo_inv s"
  shows "todo_abs (todo_step s e) = spec_todo_step (todo_abs s) e"
proof (cases e)
  case (Change_input w)
  then show ?thesis by (simp add: todo_step_def todo_abs_def)
next
  case Add_todo
  then show ?thesis using add_todos [of "s\<lparr>rerender := False\<rparr>"] inv
    by (simp add: todo_step_def todo_abs_def)
next
  case (Toggle_todo i)
  then show ?thesis using toggle_todos [of "s\<lparr>rerender := False\<rparr>" i] inv
    by (simp add: todo_step_def todo_abs_def handleToggleTodo_def Let_def split: prod.splits)
next
  case (Delete_todo i)
  then show ?thesis using delete_todos [of "s\<lparr>rerender := False\<rparr>" i] inv
    by (simp add: todo_step_def todo_abs_def handleDeleteTodo_def Let_def split: prod.splits)
qed

text \<open>C1: every handler that edits the list (add, toggle, delete) installs an array whose identity is new: its address is neither an array nor an object of the heap before the event, so it is not \<open>===\<close> to the old \<open>todoList\<close> and React re-renders, even when the edit leaves the contents as they were (a stale index).\<close>

theorem todo_step_new_identity:
  assumes inv: "todo_inv s" and e: "e \<in> {Add_todo, Toggle_todo i, Delete_todo i}"
  shows "todoList (todo_step s e) \<notin> dom (arrs (heap s)) \<union> dom (objs (heap s))
         \<and> rerender (todo_step s e)"
proof -
  have inv': "todo_inv (s\<lparr>rerender := False\<rparr>)" using inv by (simp add: todo_inv_def)
  from e show ?thesis
    using todo_inv_fresh [OF inv]
    by (auto simp: todo_step_def handleAddTodo_eq [OF inv'] handleToggleTodo_eq [OF inv']
        handleDeleteTodo_eq [OF inv'] split: if_splits)
qed

text \<open>C2: \<open>handleToggleTodo i\<close> implements the spec's toggle on the list of to-do values: the item at a valid index has its \<open>isDone\<close> flag inverted and its title kept, every other item is unchanged, and an index outside the list changes nothing.\<close>

theorem handleToggleTodo_refines:
  assumes "todo_inv s"
  shows "todos (handleToggleTodo i s) = spec_toggle i (todos s)"
  using assms by (rule toggle_todos)

text \<open>C3: toggling a valid index copies on write at element granularity: the new array has the same length, holds the very same object references at every other index, and at the toggled index a freshly allocated object.\<close>

theorem handleToggleTodo_shares:
  assumes inv: "todo_inv s" and i: "i < length (todo_elems s)"
  shows "length (todo_elems (handleToggleTodo i s)) = length (todo_elems s)
         \<and> (\<forall>j < length (todo_elems s). j \<noteq> i \<longrightarrow>
              todo_elems (handleToggleTodo i s) ! j = todo_elems s ! j)
         \<and> todo_elems (handleToggleTodo i s) ! i \<notin> dom (objs (heap s))"
  using i todo_inv_fresh(2) [OF inv]
  by (simp add: handleToggleTodo_eq [OF inv] todo_elems_def)

text \<open>C4: \<open>handleDeleteTodo i\<close> implements the spec's remove: the item at a valid index is excised and the order of the others is kept (so the length drops by one), and an index outside the list changes nothing.\<close>

theorem handleDeleteTodo_refines:
  assumes "todo_inv s"
  shows "todos (handleDeleteTodo i s) = spec_remove i (todos s)"
  using assms by (rule delete_todos)

text \<open>C5: \<open>handleAddTodo\<close> appends one item, titled with the current input and not done, after the existing items, and clears the input box.\<close>

theorem handleAddTodo_refines:
  assumes "todo_inv s"
  shows "todos (handleAddTodo s) = todos s @ [\<lparr>title = inputValue s, isDone = False\<rparr>]
         \<and> inputValue (handleAddTodo s) = ''''"
  using assms by (rule add_todos)

text \<open>C6: no event writes into an existing array or object: every object and every array of the heap before the event is still in the heap afterwards with the same content (the heap only grows).\<close>

theorem todo_step_copy_on_write:
  assumes inv: "todo_inv s"
  shows "heap_ext (heap s) (heap (todo_step s e))"
proof -
  have inv': "todo_inv (s\<lparr>rerender := False\<rparr>)" using inv by (simp add: todo_inv_def)
  have f0: "objs (heap s) (Suc (next_addr (heap s))) = None"
    and f1: "arrs (heap s) (next_addr (heap s)) = None"
    using todo_inv_fresh [OF inv] by auto
  show ?thesis
  proof (cases e)
    case (Change_input v)
    then show ?thesis by (simp add: todo_step_def setInputValue_def)
  next
    case Add_todo
    with f0 f1 show ?thesis
      by (simp add: todo_step_def handleAddTodo_eq [OF inv'] heap_ext_def map_le_fresh_upd)
  next
    case (Toggle_todo i)
    with f0 f1 show ?thesis
      by (simp add: todo_step_def handleToggleTodo_eq [OF inv'] heap_ext_def map_le_fresh_upd)
  next
    case (Delete_todo i)
    with f1 show ?thesis
      by (simp add: todo_step_def handleDeleteTodo_eq [OF inv'] heap_ext_def map_le_fresh_upd)
  qed
qed

text \<open>C7: in every state reachable from the initial render by any sequence of events, the heap is well formed and \<open>todoList\<close> refers to a live array.\<close>

theorem todo_reach_inv: "todo_reach s \<Longrightarrow> todo_inv s"
proof (induction rule: todo_reach.induct)
  case init
  show ?case by (rule todo_inv_init)
next
  case (step s e)
  from step.IH show ?case by (rule todo_step_inv)
qed

text \<open>C8: the rendered list shows the to-do values in order: one item per element, keyed by its index, with the element's title, struck through exactly when it is done.\<close>

theorem render_todo_shows_todos:
  "map item_title (render_todo s) = map title (todos s)
   \<and> map struck (render_todo s) = map isDone (todos s)
   \<and> map item_key (render_todo s) = [0..<length (todos s)]"
  by (auto simp: render_todo_def todos_def todo_elems_def Let_def intro: nth_equalityI)


text \<open>C26: the component refines the spec's local editor over any sequence of events: from
  a state satisfying the invariant, the list of to-do values and the input text after the
  events are what the abstract machine computes from them.\<close>

theorem todo_run_refines:
  assumes "todo_inv s"
  shows "todo_abs (todo_run s es) = foldl spec_todo_step (todo_abs s) es"
  using assms
proof (induction es arbitrary: s)
  case Nil
  show ?case by simp
next
  case (Cons e es)
  show ?case
    using Cons.IH [OF todo_step_inv [OF Cons.prems]] todo_step_abs [OF Cons.prems] by simp
qed

subsection \<open>Witnesses\<close>

theorem todo_step_new_identity_witness:
  "todo_inv todo_init \<and> Add_todo \<in> {Add_todo, Toggle_todo 0, Delete_todo 0}
   \<and> todoList (todo_step todo_init Add_todo)
       \<notin> dom (arrs (heap todo_init)) \<union> dom (objs (heap todo_init))
   \<and> rerender (todo_step todo_init Add_todo)"
  using todo_step_new_identity [OF todo_inv_init, of Add_todo 0] todo_inv_init by simp

theorem handleToggleTodo_refines_witness:
  "todo_inv todo_init \<and> todos (handleToggleTodo 1 todo_init) =
     [\<lparr>title = ''123'', isDone = False\<rparr>, \<lparr>title = ''44444'', isDone = True\<rparr>]"
  using handleToggleTodo_refines [OF todo_inv_init, of 1] todo_inv_init
  by (simp add: todos_init spec_toggle_def)

theorem handleToggleTodo_shares_witness:
  "todo_inv todo_init \<and> 1 < length (todo_elems todo_init)
   \<and> length (todo_elems (handleToggleTodo 1 todo_init)) = 2
   \<and> todo_elems (handleToggleTodo 1 todo_init) ! 0 = todo_elems todo_init ! 0
   \<and> todo_elems (handleToggleTodo 1 todo_init) ! 1 \<notin> dom (objs (heap todo_init))"
proof -
  have len: "1 < length (todo_elems todo_init)"
    and len2: "length (todo_elems todo_init) = 2" by (simp_all add: todo_init_eq todo_elems_def)
  have "length (todo_elems (handleToggleTodo 1 todo_init)) = length (todo_elems todo_init)
         \<and> (\<forall>j < length (todo_elems todo_init). j \<noteq> 1 \<longrightarrow>
              todo_elems (handleToggleTodo 1 todo_init) ! j = todo_elems todo_init ! j)
         \<and> todo_elems (handleToggleTodo 1 todo_init) ! 1 \<notin> dom (objs (heap todo_init))"
    by (rule handleToggleTodo_shares [OF todo_inv_init len])
  with len len2 todo_inv_init show ?thesis by auto
qed

theorem handleDeleteTodo_refines_witness:
  "todo_inv todo_init \<and> todos (handleDeleteTodo 0 todo_init) =
     [\<lparr>title = ''44444'', isDone = False\<rparr>]"
  using handleDeleteTodo_refines [OF todo_inv_init, of 0] todo_inv_init
  by (simp add: todos_init spec_remove_def)

theorem handleAddTodo_refines_witness:
  "todo_inv (todo_init\<lparr>inputValue := ''x''\<rparr>)
   \<and> todos (handleAddTodo (todo_init\<lparr>inputValue := ''x''\<rparr>)) =
       [\<lparr>title = ''123'', isDone = False\<rparr>, \<lparr>title = ''44444'', isDone = False\<rparr>,
        \<lparr>title = ''x'', isDone = False\<rparr>]"
proof -
  have inv: "todo_inv (todo_init\<lparr>inputValue := ''x''\<rparr>)"
    using todo_inv_init by (simp add: todo_inv_def)
  have "todos (todo_init\<lparr>inputValue := ''x''\<rparr>) = todos todo_init"
    by (simp add: todos_def todo_elems_def)
  with handleAddTodo_refines [OF inv] inv show ?thesis by (simp add: todos_init)
qed

theorem todo_step_copy_on_write_witness:
  "todo_inv todo_init \<and> heap_ext (heap todo_init) (heap (todo_step todo_init (Delete_todo 0)))"
  using todo_step_copy_on_write [OF todo_inv_init] todo_inv_init by simp

theorem todo_reach_inv_witness: "todo_reach todo_init \<and> todo_inv todo_init"
  using todo_reach_inv [OF todo_reach.init] todo_reach.init by simp

theorem todo_run_refines_witness:
  "todo_inv todo_init
   \<and> todo_abs (todo_run todo_init [Change_input ''x'', Add_todo, Toggle_todo 2, Delete_todo 0]) =
       ([\<lparr>title = ''44444'', isDone = False\<rparr>, \<lparr>title = ''x'', isDone = True\<rparr>], '''')"
  using todo_run_refines [OF todo_inv_init, of "[Change_input ''x'', Add_todo, Toggle_todo 2, Delete_todo 0]"]
    todo_inv_init
  by (simp add: todo_abs_def todos_init spec_toggle_def spec_remove_def)

end
