(* ===== verification/Fetch_Gate.thy ===== *)
theory Fetch_Gate
  imports React_Prelude
begin

text \<open>
  The pattern the two remote components share (\<open>Restore.jsx\<close> and \<open>Statistics.jsx\<close>):
  a snapshot cell \<open>useState(null)\<close>, a loading cell \<open>useState(true)\<close>, a fetch
  function whose continuation commits the response body on status 200 and logs a rejected
  request, and an effect on the snapshot that clears the loading flag once the snapshot is
  not null. Everything is stated over the extensible record \<open>'a snap\<close>, whose type
  parameter is the snapshot's content, so that each component extends it with its own
  in-flight requests and uses the lemmas here as its interface.
  \<^item> An axios request ends in an \<open>outcome\<close>: resolved with a status and a decoded body
    (\<open>resp.data\<close>, JSON \<open>null\<close> or a value), or rejected (network error, a status
    outside 2xx, a body that does not decode). Decoding a JSON value creates an object,
    so \<open>decode_body\<close> gives it a fresh identity.
  \<^item> A setter is a no-op on an unmounted component and bails out when \<open>Object.is\<close>
    says the value is the current one.
  \<^item> \<open>gate_commit\<close> is React's commit phase for the gate effect: it runs the effect when
    the dependency differs (by \<open>Object.is\<close>) from the one seen at the previous commit,
    and the effect clears \<open>isLoading\<close> when the component's test (\<open>!== null\<close> or
    \<open>!= null\<close>) accepts the snapshot.
  \<^item> The abstract specification is a snapshot \<open>Unset | Set v\<close> and a gate
    \<open>Uninitialized | Ready\<close> that turns \<open>Ready\<close> when it observes a \<open>Set\<close> snapshot
    and never turns back; \<open>snap_ok\<close> is the invariant under which the concrete gate
    refines it.
\<close>

datatype 'a json = JSON_null | JSON 'a

datatype 'a outcome = Resolved nat "'a json" | Rejected

datatype sink_entry =
    Err_withdrawn_list
  | Err_restore
  | Err_max_read_count
  | Alert_restored
  | Confirm_restore string

record 'a snap =
  snapshot :: "'a jsval"
  isLoading :: bool
  gate_dep :: "'a jsval option"
  next_id :: addr
  mounted :: bool
  sink :: "sink_entry list"

definition set_snapshot :: "'a jsval \<Rightarrow> ('a, 'z) snap_scheme \<Rightarrow> ('a, 'z) snap_scheme" where
  "set_snapshot v s = (if \<not> mounted s \<or> js_same v (snapshot s) then s else s\<lparr>snapshot := v\<rparr>)"

definition set_loading :: "bool \<Rightarrow> ('a, 'z) snap_scheme \<Rightarrow> ('a, 'z) snap_scheme" where
  "set_loading b s = (if \<not> mounted s \<or> b = isLoading s then s else s\<lparr>isLoading := b\<rparr>)"

definition log_sink :: "sink_entry \<Rightarrow> ('a, 'z) snap_scheme \<Rightarrow> ('a, 'z) snap_scheme" where
  "log_sink e s = s\<lparr>sink := sink s @ [e]\<rparr>"

fun decode_body :: "'a json \<Rightarrow> ('a, 'z) snap_scheme \<Rightarrow> 'a jsval \<times> ('a, 'z) snap_scheme" where
  "decode_body JSON_null s = (JNull, s)"
| "decode_body (JSON v) s = (JObj (next_id s) v, s\<lparr>next_id := Suc (next_id s)\<rparr>)"

text \<open>The continuation of a fetch function: \<open>if (resp.status === 200) setX(resp.data)\<close>
  inside \<open>try\<close>, \<open>console.error(...)\<close> in \<open>catch\<close>; \<open>err\<close> is the message of the
  component's \<open>console.error\<close>.\<close>

definition fetch_settle ::
  "sink_entry \<Rightarrow> 'a outcome \<Rightarrow> ('a, 'z) snap_scheme \<Rightarrow> ('a, 'z) snap_scheme" where
  "fetch_settle err out s =
    (case out of
       Rejected \<Rightarrow> log_sink err s
     | Resolved st body \<Rightarrow>
         (if st = 200 then (let (v, s1) = decode_body body s in set_snapshot v s1) else s))"

definition gate_commit ::
  "('a jsval \<Rightarrow> bool) \<Rightarrow> ('a, 'z) snap_scheme \<Rightarrow> ('a, 'z) snap_scheme" where
  "gate_commit ready s =
    (if mounted s \<and> (case gate_dep s of None \<Rightarrow> True | Some d \<Rightarrow> \<not> js_same d (snapshot s))
     then (if ready (snapshot s) then set_loading False s else s)\<lparr>gate_dep := Some (snapshot s)\<rparr>
     else s)"

definition strict_ready :: "'a jsval \<Rightarrow> bool" where
  "strict_ready v \<longleftrightarrow> \<not> js_strict_null v"

definition loose_ready :: "'a jsval \<Rightarrow> bool" where
  "loose_ready v \<longleftrightarrow> \<not> js_loose_null v"

subsection \<open>Abstract specification\<close>

datatype 'a snapshot_spec = Unset | Set 'a

datatype gate = Uninitialized | Ready

fun abs_snapshot :: "'a jsval \<Rightarrow> 'a snapshot_spec" where
  "abs_snapshot (JObj _ v) = Set v"
| "abs_snapshot _ = Unset"

definition gate_of :: "('a, 'z) snap_scheme \<Rightarrow> gate" where
  "gate_of s = (if isLoading s then Uninitialized else Ready)"

fun spec_gate :: "gate \<Rightarrow> 'a snapshot_spec \<Rightarrow> gate" where
  "spec_gate g Unset = g"
| "spec_gate g (Set _) = Ready"

text \<open>The invariant of a remote component: the snapshot is never \<open>undefined\<close>, an object
  snapshot has an identity below the allocator, a committed component has its gate
  dependency equal to its snapshot, and a non-null snapshot has cleared the gate.\<close>

definition snap_ok :: "('a, 'z) snap_scheme \<Rightarrow> bool" where
  "snap_ok s \<longleftrightarrow>
     snapshot s \<noteq> JUndefined
   \<and> (\<forall>a v. snapshot s = JObj a v \<longrightarrow> a < next_id s)
   \<and> (mounted s \<longrightarrow> gate_dep s = Some (snapshot s))
   \<and> (snapshot s \<noteq> JNull \<longrightarrow> \<not> isLoading s)"

text \<open>\<open>ready_ok r\<close>: the gate test \<open>r\<close> accepts exactly the non-null snapshots among the
  values a fetch can produce; both \<open>!== null\<close> and \<open>!= null\<close> are such tests.\<close>

definition ready_ok :: "('a jsval \<Rightarrow> bool) \<Rightarrow> bool" where
  "ready_ok r \<longleftrightarrow> (\<forall>v. v \<noteq> JUndefined \<longrightarrow> (r v \<longleftrightarrow> v \<noteq> JNull))"

text \<open>\<open>snap_frame s t\<close>: \<open>t\<close> agrees with \<open>s\<close> on every field the fetch and the gate
  read or write; the steps that only issue requests or write to the sink are frames.\<close>

definition snap_frame :: "('a, 'z) snap_scheme \<Rightarrow> ('a, 'y) snap_scheme \<Rightarrow> bool" where
  "snap_frame s t \<longleftrightarrow>
     snapshot t = snapshot s \<and> isLoading t = isLoading s \<and> gate_dep t = gate_dep s
   \<and> mounted t = mounted s \<and> next_id t = next_id s"

subsection \<open>The fetch continuation and the gate effect\<close>

lemma ready_ok_strict: "ready_ok strict_ready"
  by (simp add: ready_ok_def strict_ready_def)

lemma ready_ok_loose: "ready_ok loose_ready"
  by (simp add: ready_ok_def loose_ready_def)

lemma fetch_settle_Rejected [simp]: "fetch_settle err Rejected s = log_sink err s"
  by (simp add: fetch_settle_def)

lemma fetch_settle_other [simp]: "st \<noteq> 200 \<Longrightarrow> fetch_settle err (Resolved st b) s = s"
  by (simp add: fetch_settle_def)

lemma fetch_settle_value:
  "fetch_settle err (Resolved 200 (JSON v)) s =
     set_snapshot (JObj (next_id s) v) (s\<lparr>next_id := Suc (next_id s)\<rparr>)"
  by (simp add: fetch_settle_def)

lemma fetch_settle_null:
  "fetch_settle err (Resolved 200 JSON_null) s = set_snapshot JNull s"
  by (simp add: fetch_settle_def)

text \<open>A state whose gate-relevant fields are those of a state satisfying the invariant
  satisfies it too, and the commit leaves it alone.\<close>

lemma snap_ok_frame:
  assumes "snap_ok s" "snapshot t = snapshot s" "isLoading t = isLoading s"
    "gate_dep t = gate_dep s" "mounted t = mounted s" "next_id t = next_id s"
  shows "snap_ok t \<and> gate_commit r t = t"
  using assms by (auto simp: snap_ok_def gate_commit_def)

lemma snap_ok_log [simp]: "snap_ok (log_sink e s) = snap_ok s"
  by (simp add: snap_ok_def log_sink_def)

lemma gate_commit_log: "snap_ok s \<Longrightarrow> gate_commit r (log_sink e s) = log_sink e s"
  by (auto simp: snap_ok_def gate_commit_def log_sink_def)

lemma snap_ok_fetch_settle:
  assumes ok: "snap_ok s" and r: "ready_ok r"
  shows "snap_ok (gate_commit r (fetch_settle err out s))"
proof (cases out)
  case Rejected
  with ok show ?thesis by (simp add: gate_commit_log)
next
  case (Resolved st b)
  show ?thesis
  proof (cases "st = 200")
    case False
    with Resolved show ?thesis using snap_ok_frame [OF ok refl refl refl refl refl] by simp
  next
    case True
    show ?thesis
    proof (cases b)
      case JSON_null
      with ok r Resolved True show ?thesis
        by (cases "snapshot s")
           (auto simp: fetch_settle_null set_snapshot_def gate_commit_def snap_ok_def
             set_loading_def ready_ok_def)
    next
      case (JSON v)
      with ok r Resolved True show ?thesis
        by (cases "snapshot s")
           (auto simp: fetch_settle_value set_snapshot_def gate_commit_def snap_ok_def
             set_loading_def ready_ok_def)
    qed
  qed
qed

lemma gate_of_frame:
  "snap_ok s \<Longrightarrow> gate_of s = spec_gate (gate_of s) (abs_snapshot (snapshot s))"
  by (cases "snapshot s") (auto simp: snap_ok_def gate_of_def)

lemma fetch_commit_gate:
  fixes out :: "'a outcome" and err :: sink_entry and s :: "('a, 'z) snap_scheme"
  assumes ok: "snap_ok s" and r: "ready_ok r"
  defines "t \<equiv> gate_commit r (fetch_settle err out s)"
  shows "gate_of t = spec_gate (gate_of s) (abs_snapshot (snapshot t))"
proof (cases out)
  case Rejected
  with ok have "t = log_sink err s" by (simp add: t_def gate_commit_log)
  then show ?thesis using gate_of_frame [OF ok] by (simp add: log_sink_def gate_of_def)
next
  case (Resolved st b)
  show ?thesis
  proof (cases "st = 200")
    case False
    with Resolved show ?thesis
      using snap_ok_frame [OF ok refl refl refl refl refl] gate_of_frame [OF ok] by (simp add: t_def)
  next
    case True
    show ?thesis
    proof (cases b)
      case JSON_null
      with ok r Resolved True show ?thesis
        by (cases "snapshot s")
           (auto simp: t_def fetch_settle_null set_snapshot_def gate_commit_def snap_ok_def
             set_loading_def ready_ok_def gate_of_def)
    next
      case (JSON v)
      with ok r Resolved True show ?thesis
        by (cases "snapshot s")
           (auto simp: t_def fetch_settle_value set_snapshot_def gate_commit_def snap_ok_def
             set_loading_def ready_ok_def gate_of_def)
    qed
  qed
qed

lemma fetch_commit_value:
  assumes ok: "snap_ok s" and r: "ready_ok r" and m: "mounted s"
  shows "gate_commit r (fetch_settle err (Resolved 200 (JSON v)) s) =
    s\<lparr>snapshot := JObj (next_id s) v, isLoading := False, gate_dep := Some (JObj (next_id s) v),
      next_id := Suc (next_id s)\<rparr>"
  using ok r m
  by (cases "snapshot s")
     (auto simp: fetch_settle_value set_snapshot_def gate_commit_def snap_ok_def
       set_loading_def ready_ok_def)

lemma snap_frame_refl [simp]: "snap_frame s s"
  by (simp add: snap_frame_def)

lemma snap_frame_ok:
  "snap_ok s \<Longrightarrow> snap_frame s t \<Longrightarrow> snap_ok t \<and> gate_commit r t = t"
  using snap_ok_frame unfolding snap_frame_def by blast

lemma snap_frame_gate:
  "snap_frame s t \<Longrightarrow> gate_of t = gate_of s \<and> snapshot t = snapshot s \<and> isLoading t = isLoading s"
  by (simp add: snap_frame_def gate_of_def)

lemma snap_frame_log [simp]: "snap_frame s (log_sink e t) = snap_frame s t"
  by (simp add: snap_frame_def log_sink_def)

text \<open>The first commit after mounting runs the gate effect once; under the invariant it
  leaves the gate and the snapshot as they are and records the dependency.\<close>

lemma snap_ok_mount_commit:
  assumes ok: "snap_ok s" and r: "ready_ok r" and m: "mounted t" and d: "gate_dep t = None"
    and eq: "snapshot t = snapshot s" "isLoading t = isLoading s" "next_id t = next_id s"
  shows "snap_ok (gate_commit r t) \<and> gate_of (gate_commit r t) = gate_of s
         \<and> snapshot (gate_commit r t) = snapshot s"
  using assms
  by (cases "snapshot s")
     (auto simp: snap_ok_def gate_commit_def set_loading_def ready_ok_def gate_of_def)

lemma snap_ok_unmount: "snap_ok s \<Longrightarrow> \<not> mounted t \<Longrightarrow> snap_frame s (t\<lparr>mounted := mounted s\<rparr>)
  \<Longrightarrow> snap_ok t \<and> gate_commit r t = t \<and> gate_of t = gate_of s \<and> snapshot t = snapshot s"
  by (simp add: snap_ok_def snap_frame_def gate_commit_def gate_of_def)

lemma spec_gate_Ready [simp]: "spec_gate Ready x = Ready"
  by (cases x) simp_all

lemma fetch_settle_unmounted:
  assumes "\<not> mounted s"
  shows "snapshot (fetch_settle err out s) = snapshot s
    \<and> isLoading (fetch_settle err out s) = isLoading s
    \<and> mounted (fetch_settle err out s) = mounted s
    \<and> gate_dep (fetch_settle err out s) = gate_dep s"
proof (cases out)
  case Rejected
  then show ?thesis by (simp add: log_sink_def)
next
  case (Resolved st b)
  then show ?thesis using assms by (cases b) (auto simp: fetch_settle_def set_snapshot_def)
qed

lemma gate_commit_unmounted [simp]: "\<not> mounted s \<Longrightarrow> gate_commit r s = s"
  by (simp add: gate_commit_def)

end
