(* ===== verification/Restore.thy ===== *)
theory Restore
  imports Fetch_Gate
begin

text \<open>
  The withdrawn-member screen, \<open>src/board-project-admin/src/components/Restore.jsx\<close>.
  Its state is the shared snapshot record (the \<open>withdrawnMembers\<close> and \<open>isLoading\<close>
  cells, React's bookkeeping for the gate effect, the mounted flag and the console/alert
  sink) extended with the requests in flight. The environment is an event system: React
  mounts and unmounts the component, the user answers the confirm prompt of
  \<open>restoreMember\<close>, and the server resolves any in-flight request, in any order and
  with any outcome. Each event runs its handler or continuation and then React's commit,
  which runs the gate effect on a changed \<open>withdrawnMembers\<close>.
  Modelled from the evident intent of the file: it does not parse as committed (see the
  findings of the manifest), and no element of its render calls \<open>restoreMember\<close>.
  The lemmas show the invariant of the reachable states, that the gate refines the
  abstract \<open>Uninitialized\<close>/\<open>Ready\<close> machine and never reverts, the exact effect of
  each kind of response (stale-on-error, a non-200 status ignored, resync after a
  successful write without an optimistic update, last write wins). The auxiliary counter
  \<open>list_fetches\<close> shows that the member list is requested once by the mount effect and
  once per successful restore, never otherwise. The requests also drain: rejecting every
  request leaves none, and nothing is retried.
\<close>

record member =
  memberNo :: nat
  memberNickname :: string

datatype restore_req = Get_members | Put_restore nat

text \<open>\<open>pending\<close> holds the requests in flight. \<open>list_fetches\<close> is an auxiliary (ghost)
  counter of the calls of \<open>getWithdrawnMemberList\<close>; nothing reads it, it only records
  history for the lemmas.\<close>

record restore_st = "member list snap" +
  pending :: "restore_req list"
  list_fetches :: nat

definition restore_init :: restore_st where
  "restore_init =
    \<lparr>snapshot = JNull, isLoading = True, gate_dep = None, next_id = 0, mounted = False,
     sink = [], pending = [], list_fetches = 0\<rparr>"

text \<open>\<open>getWithdrawnMemberList\<close> issues \<open>axiosApi.get("/admin/")\<close>; its continuation is
  \<open>fetch_settle Err_withdrawn_list\<close>, run when the request resolves.\<close>

definition getWithdrawnMemberList :: "restore_st \<Rightarrow> restore_st" where
  "getWithdrawnMemberList s =
    s\<lparr>pending := pending s @ [Get_members], list_fetches := Suc (list_fetches s)\<rparr>"

text \<open>\<open>restoreMember\<close>: \<open>window.confirm\<close> with the member's nickname; on \<open>true\<close> it
  issues \<open>axiosApi.put("/admin/restoreMember", {memberNo})\<close>.\<close>

definition restoreMember :: "member \<Rightarrow> bool \<Rightarrow> restore_st \<Rightarrow> restore_st" where
  "restoreMember m answer s =
    (let s1 = log_sink (Confirm_restore (memberNickname m)) s
     in if answer then s1\<lparr>pending := pending s1 @ [Put_restore (memberNo m)]\<rparr> else s1)"

text \<open>The continuation of the write: on status 200 \<open>alert(...)\<close> then
  \<open>getWithdrawnMemberList()\<close>; \<open>console.error\<close> when the request is rejected.\<close>

definition restore_put_settle :: "member list outcome \<Rightarrow> restore_st \<Rightarrow> restore_st" where
  "restore_put_settle out s =
    (case out of
       Rejected \<Rightarrow> log_sink Err_restore s
     | Resolved st _ \<Rightarrow>
         (if st = 200 then getWithdrawnMemberList (log_sink Alert_restored s) else s))"

definition restore_respond :: "nat \<Rightarrow> member list outcome \<Rightarrow> restore_st \<Rightarrow> restore_st" where
  "restore_respond k out s =
    (if k < length (pending s)
     then (let s1 = s\<lparr>pending := take k (pending s) @ drop (Suc k) (pending s)\<rparr>
           in case pending s ! k of
                Get_members \<Rightarrow> fetch_settle Err_withdrawn_list out s1
              | Put_restore _ \<Rightarrow> restore_put_settle out s1)
     else s)"

datatype restore_event =
    Restore_mount
  | Restore_respond nat "member list outcome"
  | Restore_click member bool
  | Restore_unmount

text \<open>Mounting runs the mount effect (\<open>useEffect(() => getWithdrawnMemberList(), [])\<close>);
  a component is mounted once. A click reaches \<open>restoreMember\<close> only on a mounted
  component.\<close>

fun restore_handle :: "restore_event \<Rightarrow> restore_st \<Rightarrow> restore_st" where
  "restore_handle Restore_mount s =
     (if mounted s \<or> gate_dep s \<noteq> None then s else getWithdrawnMemberList (s\<lparr>mounted := True\<rparr>))"
| "restore_handle (Restore_respond k out) s = restore_respond k out s"
| "restore_handle (Restore_click m answer) s = (if mounted s then restoreMember m answer s else s)"
| "restore_handle Restore_unmount s = s\<lparr>mounted := False\<rparr>"

text \<open>The gate effect of Restore tests \<open>withdrawnMembers !== null\<close>.\<close>

definition restore_step :: "restore_st \<Rightarrow> restore_event \<Rightarrow> restore_st" where
  "restore_step s e = gate_commit strict_ready (restore_handle e s)"

fun restore_run :: "restore_st \<Rightarrow> restore_event list \<Rightarrow> restore_st" where
  "restore_run s [] = s"
| "restore_run s (e # es) = restore_run (restore_step s e) es"

datatype restore_view = Restore_loading | Restore_sections

definition restore_render :: "restore_st \<Rightarrow> restore_view" where
  "restore_render s = (if isLoading s then Restore_loading else Restore_sections)"

inductive restore_reach :: "restore_st \<Rightarrow> bool" where
  init: "restore_reach restore_init"
| step: "restore_reach s \<Longrightarrow> restore_reach (restore_step s e)"

definition remove_at :: "nat \<Rightarrow> 'a list \<Rightarrow> 'a list" where
  "remove_at k xs = take k xs @ drop (Suc k) xs"

text \<open>The weight of a request in flight: a member-list request settles without issuing
  another, a write issues at most one member-list request when it settles.\<close>

fun req_weight :: "restore_req \<Rightarrow> nat" where
  "req_weight Get_members = 1"
| "req_weight (Put_restore _) = 2"

subsection \<open>Invariant and characterisation of the steps\<close>

lemma restore_handle_shape:
  obtains (frame) "snap_frame s (restore_handle e s)"
  | (fetch) out s1 where "snap_frame s s1" "restore_handle e s = fetch_settle Err_withdrawn_list out s1"
  | (mount) "\<not> mounted s" "gate_dep s = None"
      "restore_handle e s = getWithdrawnMemberList (s\<lparr>mounted := True\<rparr>)"
  | (unmount) "restore_handle e s = s\<lparr>mounted := False\<rparr>"
proof (cases e)
  case Restore_mount
  then show ?thesis using that(1,3)
    by (cases "mounted s \<or> gate_dep s \<noteq> None") (auto simp: snap_frame_def)
next
  case (Restore_respond k out)
  show ?thesis
  proof (cases "k < length (pending s)")
    case False
    with Restore_respond that(1) show ?thesis by (simp add: restore_respond_def)
  next
    case True
    let ?s1 = "s\<lparr>pending := take k (pending s) @ drop (Suc k) (pending s)\<rparr>"
    have fr: "snap_frame s ?s1" by (simp add: snap_frame_def)
    show ?thesis
    proof (cases "pending s ! k")
      case Get_members
      with True Restore_respond that(2) [OF fr] show ?thesis by (simp add: restore_respond_def)
    next
      case (Put_restore n)
      with True Restore_respond that(1) show ?thesis
        by (cases out) (auto simp: restore_respond_def restore_put_settle_def Let_def
            getWithdrawnMemberList_def snap_frame_def log_sink_def)
    qed
  qed
next
  case (Restore_click m answer)
  with that(1) show ?thesis
    by (auto simp: restoreMember_def snap_frame_def log_sink_def Let_def)
next
  case Restore_unmount
  with that(4) show ?thesis by simp
qed

lemma restore_step_ok_gate:
  assumes ok: "snap_ok s"
  shows "snap_ok (restore_step s e)
         \<and> gate_of (restore_step s e) = spec_gate (gate_of s) (abs_snapshot (snapshot (restore_step s e)))"
proof (cases rule: restore_handle_shape [of s e])
  case frame
  with ok show ?thesis
    using snap_frame_ok [OF ok frame] snap_frame_gate [OF frame] gate_of_frame [OF ok]
    by (simp add: restore_step_def)
next
  case (fetch out s1)
  then have ok1: "snap_ok s1" and g1: "gate_of s1 = gate_of s"
    using snap_frame_ok [OF ok] snap_frame_gate by blast+
  show ?thesis
    using fetch snap_ok_fetch_settle [OF ok1 ready_ok_strict] fetch_commit_gate [OF ok1 ready_ok_strict] g1
    by (simp add: restore_step_def)
next
  case mount
  then show ?thesis
    using snap_ok_mount_commit [OF ok ready_ok_strict, of "getWithdrawnMemberList (s\<lparr>mounted := True\<rparr>)"]
      gate_of_frame [OF ok]
    by (simp add: restore_step_def getWithdrawnMemberList_def)
next
  case unmount
  then show ?thesis
    using snap_ok_unmount [OF ok, of "s\<lparr>mounted := False\<rparr>"] gate_of_frame [OF ok]
    by (simp add: restore_step_def snap_frame_def)
qed

lemma restore_init_ok: "snap_ok restore_init"
  by (simp add: restore_init_def snap_ok_def)

lemma restore_reach_ok: "restore_reach s \<Longrightarrow> snap_ok s"
proof (induction rule: restore_reach.induct)
  case init
  show ?case by (rule restore_init_ok)
next
  case (step s e)
  from restore_step_ok_gate [OF step.IH] show ?case by simp
qed

lemma restore_reach_step_run: "restore_reach s \<Longrightarrow> restore_reach (restore_run s es)"
  by (induction es arbitrary: s) (auto intro: restore_reach.step)

lemma restore_respond_get:
  "k < length (pending s) \<Longrightarrow> pending s ! k = Get_members \<Longrightarrow>
   restore_respond k out s =
     fetch_settle Err_withdrawn_list out (s\<lparr>pending := remove_at k (pending s)\<rparr>)"
  by (simp add: restore_respond_def remove_at_def)

lemma restore_respond_put:
  "k < length (pending s) \<Longrightarrow> pending s ! k = Put_restore n \<Longrightarrow>
   restore_respond k out s = restore_put_settle out (s\<lparr>pending := remove_at k (pending s)\<rparr>)"
  by (simp add: restore_respond_def remove_at_def)

lemma snap_ok_pending [simp]: "snap_ok (s\<lparr>pending := p\<rparr>) = snap_ok s"
  by (simp add: snap_ok_def)

text \<open>The commit does nothing after a step that only issued requests or wrote to the sink.\<close>

lemma restore_commit_frame:
  assumes ok: "snap_ok s" and "snapshot t = snapshot s" "isLoading t = isLoading s"
    "gate_dep t = gate_dep s" "mounted t = mounted s" "next_id t = next_id s"
  shows "gate_commit r t = t"
  using snap_frame_ok [OF ok, of t r] assms(2-) by (simp add: snap_frame_def)

subsection \<open>Requests in flight\<close>

text \<open>The fetch continuation and the gate effect leave the request list alone; a
  continuation writes at most its own error message to the sink.\<close>

lemma fetch_settle_requests:
  "pending (fetch_settle err out s) = pending s \<and> mounted (fetch_settle err out s) = mounted s
   \<and> gate_dep (fetch_settle err out s) = gate_dep s
   \<and> list_fetches (fetch_settle err out s) = list_fetches s
   \<and> (sink (fetch_settle err out s) = sink s \<or> sink (fetch_settle err out s) = sink s @ [err])"
proof (cases out)
  case (Resolved st b)
  then show ?thesis by (cases b) (auto simp: fetch_settle_def set_snapshot_def)
qed (simp add: log_sink_def)

lemma gate_commit_requests:
  "pending (gate_commit r t) = pending t \<and> sink (gate_commit r t) = sink t
   \<and> mounted (gate_commit r t) = mounted t \<and> list_fetches (gate_commit r t) = list_fetches t
   \<and> (gate_dep (gate_commit r t) = None \<longleftrightarrow> gate_dep t = None \<and> \<not> mounted t)"
  by (simp add: gate_commit_def set_loading_def split: option.splits)

text \<open>The member-list fetches sent: one once the mount effect has run, plus one for
  each successful restore (whose \<open>alert\<close> is in the sink). A handler keeps this
  balance, reading "the mount effect has run" as "committed or mounted".\<close>

lemma restore_handle_fetches:
  assumes ok: "snap_ok s"
    and b: "list_fetches s = (if gate_dep s = None then 0 else 1) + count_list (sink s) Alert_restored"
  shows "list_fetches (restore_handle e s) =
           (if gate_dep (restore_handle e s) = None \<and> \<not> mounted (restore_handle e s) then 0 else 1)
           + count_list (sink (restore_handle e s)) Alert_restored"
proof -
  have md: "mounted s \<Longrightarrow> gate_dep s \<noteq> None" using ok by (simp add: snap_ok_def)
  show ?thesis
  proof (cases e)
    case (Restore_respond k out)
    show ?thesis
    proof (cases "k < length (pending s)")
      case True
      let ?s1 = "s\<lparr>pending := remove_at k (pending s)\<rparr>"
      show ?thesis
      proof (cases "pending s ! k")
        case Get_members
        with True Restore_respond b md show ?thesis
          using fetch_settle_requests [of Err_withdrawn_list out ?s1]
          by (auto simp: restore_respond_get)
      next
        case (Put_restore n)
        with True Restore_respond b md show ?thesis
          by (cases out) (auto simp: restore_respond_put restore_put_settle_def log_sink_def
              getWithdrawnMemberList_def)
      qed
    qed (use Restore_respond b md in \<open>auto simp: restore_respond_def\<close>)
  qed (use b md in \<open>auto simp: getWithdrawnMemberList_def restoreMember_def log_sink_def Let_def\<close>)
qed

text \<open>A rejected response to the oldest request only logs and drops that request.\<close>

lemma restore_step_reject_head:
  assumes ok: "snap_ok s" and ps: "pending s = p # rs"
  shows "restore_step s (Restore_respond 0 Rejected) =
    log_sink (case p of Get_members \<Rightarrow> Err_withdrawn_list | Put_restore _ \<Rightarrow> Err_restore)
      (s\<lparr>pending := rs\<rparr>)"
  using ok ps gate_commit_log [of "s\<lparr>pending := rs\<rparr>"]
  by (cases p) (simp_all add: restore_step_def restore_respond_def restore_put_settle_def)

text \<open>Settling the oldest request lowers the weight of the requests in flight, keeps the
  mounted flag, and keeps every other request in flight.\<close>

lemma restore_step_head_weight:
  assumes ps: "pending s = r # rs"
  shows "sum_list (map req_weight (pending (restore_step s (Restore_respond 0 out))))
           < sum_list (map req_weight (pending s))
    \<and> mounted (restore_step s (Restore_respond 0 out)) = mounted s
    \<and> set rs \<subseteq> set (pending (restore_step s (Restore_respond 0 out)))"
proof -
  let ?t = "restore_handle (Restore_respond 0 out) s"
  have c: "pending (restore_step s (Restore_respond 0 out)) = pending ?t
      \<and> mounted (restore_step s (Restore_respond 0 out)) = mounted ?t"
    using gate_commit_requests [of strict_ready ?t] by (simp add: restore_step_def)
  show ?thesis
  proof (cases r)
    case Get_members
    with ps c show ?thesis
      using fetch_settle_requests [of Err_withdrawn_list out "s\<lparr>pending := rs\<rparr>"]
      by (simp add: restore_respond_def)
  next
    case (Put_restore n)
    with ps c show ?thesis
      by (cases out) (auto simp: restore_respond_def restore_put_settle_def log_sink_def
          getWithdrawnMemberList_def Let_def)
  qed
qed

lemmas restore_eval = restore_step_def gate_commit_def restore_respond_def fetch_settle_def
  set_snapshot_def set_loading_def getWithdrawnMemberList_def restoreMember_def
  restore_put_settle_def log_sink_def restore_init_def gate_of_def Let_def strict_ready_def

text \<open>C9: the loading gate of Restore refines the abstract gate: after any event from a reachable state, the concrete gate is what the abstract machine computes from the previous gate and the new snapshot (it turns Ready exactly when it observes a set snapshot, and otherwise keeps its state).\<close>

theorem restore_gate_refines:
  "restore_reach s \<Longrightarrow>
   gate_of (restore_step s e) = spec_gate (gate_of s) (abs_snapshot (snapshot (restore_step s e)))"
  using restore_step_ok_gate restore_reach_ok by blast

text \<open>C10: once Ready, the gate of Restore stays Ready under any sequence of events: no fetch, failure, mutation or unmount brings back the loading view.\<close>

theorem restore_gate_monotone:
  "restore_reach s \<Longrightarrow> gate_of s = Ready \<Longrightarrow> gate_of (restore_run s es) = Ready"
proof (induction es arbitrary: s)
  case Nil
  then show ?case by simp
next
  case (Cons e es)
  have "gate_of (restore_step s e) = Ready"
    using restore_step_ok_gate [OF restore_reach_ok [OF Cons.prems(1)], of e] Cons.prems(2) by simp
  with Cons.IH [of "restore_step s e"] Cons.prems(1) show ?case
    by (simp add: restore_reach.step)
qed

text \<open>C11: stale-on-error: when the member-list request is rejected, the snapshot and the gate are left as they were; the request leaves the in-flight list and the error is logged to the console.\<close>

theorem restore_fetch_rejected:
  assumes "restore_reach s" "k < length (pending s)" "pending s ! k = Get_members"
  shows "restore_step s (Restore_respond k Rejected) =
    s\<lparr>pending := remove_at k (pending s), sink := sink s @ [Err_withdrawn_list]\<rparr>"
  using assms
  by (simp add: restore_commit_frame [OF restore_reach_ok [OF assms(1)]] restore_step_def restore_respond_get log_sink_def)

text \<open>C12: resync without optimistic update: a successful write leaves the snapshot and the gate untouched, shows the acknowledgement, and issues a fresh member-list request, in that order.\<close>

theorem restore_write_resync:
  assumes "restore_reach s" "k < length (pending s)" "pending s ! k = Put_restore n"
  shows "restore_step s (Restore_respond k (Resolved 200 b)) =
    s\<lparr>pending := remove_at k (pending s) @ [Get_members], sink := sink s @ [Alert_restored],
      list_fetches := Suc (list_fetches s)\<rparr>"
  using assms
  by (simp add: restore_commit_frame [OF restore_reach_ok [OF assms(1)]] restore_step_def restore_respond_put restore_put_settle_def
      getWithdrawnMemberList_def log_sink_def)

text \<open>C13: last write wins: a member-list response with status 200 and a JSON body installs that body as a snapshot of new identity (so React re-renders) whatever the previous snapshot was, and the gate is then Ready.\<close>

theorem restore_last_write_wins:
  assumes "restore_reach s" "mounted s" "k < length (pending s)" "pending s ! k = Get_members"
  shows "snapshot (restore_step s (Restore_respond k (Resolved 200 (JSON v)))) = JObj (next_id s) v
       \<and> \<not> js_same (snapshot (restore_step s (Restore_respond k (Resolved 200 (JSON v))))) (snapshot s)
       \<and> gate_of (restore_step s (Restore_respond k (Resolved 200 (JSON v)))) = Ready"
proof -
  have ok: "snap_ok s" using restore_reach_ok [OF assms(1)] .
  then have ok1: "snap_ok (s\<lparr>pending := remove_at k (pending s)\<rparr>)" by simp
  have fresh: "\<not> js_same (JObj (next_id s) v) (snapshot s)"
    using ok by (cases "snapshot s") (auto simp: snap_ok_def)
  show ?thesis
    using fetch_commit_value [OF ok1 ready_ok_strict, where v = v and err = Err_withdrawn_list] assms(2-4) fresh
    by (simp add: restore_step_def restore_respond_get gate_of_def)
qed

text \<open>C14: a member-list response that resolves with a status other than 200 (a 2xx status axios does not reject) is dropped without a trace: the snapshot, the gate and the console are unchanged.\<close>

theorem restore_fetch_non_200:
  assumes "restore_reach s" "k < length (pending s)" "pending s ! k = Get_members" "st \<noteq> 200"
  shows "restore_step s (Restore_respond k (Resolved st b)) =
    s\<lparr>pending := remove_at k (pending s)\<rparr>"
  using assms
  by (simp add: restore_commit_frame [OF restore_reach_ok [OF assms(1)]] restore_step_def restore_respond_get)

text \<open>C15: a rejected write only logs: the snapshot and the gate are unchanged and no resync request is issued.\<close>

theorem restore_write_rejected:
  assumes "restore_reach s" "k < length (pending s)" "pending s ! k = Put_restore n"
  shows "restore_step s (Restore_respond k Rejected) =
    s\<lparr>pending := remove_at k (pending s), sink := sink s @ [Err_restore]\<rparr>"
  using assms
  by (simp add: restore_commit_frame [OF restore_reach_ok [OF assms(1)]] restore_step_def restore_respond_put restore_put_settle_def log_sink_def)

text \<open>C16: restoreMember asks for confirmation with the member's nickname; declined it changes nothing else, accepted it issues exactly one write for the member's number.\<close>

theorem restore_confirm:
  assumes "mounted s" "restore_reach s"
  shows "restore_step s (Restore_click m False) = s\<lparr>sink := sink s @ [Confirm_restore (memberNickname m)]\<rparr>
       \<and> restore_step s (Restore_click m True) =
           s\<lparr>sink := sink s @ [Confirm_restore (memberNickname m)],
             pending := pending s @ [Put_restore (memberNo m)]\<rparr>"
  using assms
  by (simp add: restore_commit_frame [OF restore_reach_ok [OF assms(2)]] restore_step_def restoreMember_def log_sink_def Let_def)

subsection \<open>Witnesses\<close>

text \<open>C24: Restore sends the member list exactly when it should: in every reachable state
  the calls of \<open>getWithdrawnMemberList\<close> so far are one for the mount effect (once it has
  run) plus one per successful restore. Remounts, clicks, declined confirms and failures send
  none; no request is retried.\<close>

theorem restore_get_bound:
  "restore_reach s \<Longrightarrow>
   list_fetches s = (if gate_dep s = None then 0 else 1) + count_list (sink s) Alert_restored"
proof (induction rule: restore_reach.induct)
  case init
  show ?case by (simp add: restore_init_def)
next
  case (step s e)
  then show ?case
    using restore_handle_fetches [OF restore_reach_ok [OF step.hyps] step.IH, of e]
      gate_commit_requests [of strict_ready "restore_handle e s"]
    by (simp add: restore_step_def)
qed

text \<open>C25: the requests of Restore drain without retries: from any reachable state, when
  the environment rejects every request in flight, oldest first, no request is left and
  none is reissued, and the snapshot and the loading flag are as before.\<close>

theorem restore_rejections_drain:
  assumes "restore_reach s"
  shows "pending (restore_run s (replicate (length (pending s)) (Restore_respond 0 Rejected))) = []
    \<and> snapshot (restore_run s (replicate (length (pending s)) (Restore_respond 0 Rejected))) = snapshot s
    \<and> isLoading (restore_run s (replicate (length (pending s)) (Restore_respond 0 Rejected))) = isLoading s"
proof -
  have gen: "pending (restore_run t (replicate n (Restore_respond 0 Rejected))) = []
    \<and> snapshot (restore_run t (replicate n (Restore_respond 0 Rejected))) = snapshot t
    \<and> isLoading (restore_run t (replicate n (Restore_respond 0 Rejected))) = isLoading t"
    if "restore_reach t" "length (pending t) = n" for t n
    using that
  proof (induction n arbitrary: t)
    case 0
    then show ?case by simp
  next
    case (Suc n)
    then obtain p rs where ps: "pending t = p # rs" by (cases "pending t") auto
    let ?t = "restore_step t (Restore_respond 0 Rejected)"
    have eq: "?t = log_sink (case p of Get_members \<Rightarrow> Err_withdrawn_list | Put_restore _ \<Rightarrow> Err_restore)
        (t\<lparr>pending := rs\<rparr>)"
      by (rule restore_step_reject_head [OF restore_reach_ok [OF Suc.prems(1)] ps])
    have "restore_reach ?t" by (rule restore_reach.step [OF Suc.prems(1)])
    moreover have "length (pending ?t) = n" using eq ps Suc.prems(2) by (simp add: log_sink_def)
    ultimately show ?case using Suc.IH [of ?t] eq by (simp add: log_sink_def)
  qed
  show ?thesis by (rule gen [OF assms refl])
qed

text \<open>Two reachable states serve as witnesses: the component just mounted (one member-list
  request in flight) and the same after the user confirmed a restore (a write in flight
  behind it).\<close>

lemma restore_reach_mounted: "restore_reach (restore_step restore_init Restore_mount)"
  by (rule restore_reach.step [OF restore_reach.init])

lemma restore_reach_clicked:
  "restore_reach (restore_run restore_init
     [Restore_mount, Restore_click \<lparr>memberNo = 1, memberNickname = ''A''\<rparr> True])"
  using restore_reach_step_run [OF restore_reach.init] by blast

theorem restore_gate_refines_witness:
  "restore_reach restore_init
   \<and> gate_of (restore_step restore_init Restore_mount) =
       spec_gate (gate_of restore_init) (abs_snapshot (snapshot (restore_step restore_init Restore_mount)))"
  using restore_gate_refines [OF restore_reach.init, of Restore_mount] restore_reach.init by blast

theorem restore_gate_monotone_witness:
  "let s = restore_run restore_init [Restore_mount, Restore_respond 0 (Resolved 200 (JSON []))]
   in restore_reach s \<and> gate_of s = Ready
    \<and> gate_of (restore_run s [Restore_respond 5 Rejected, Restore_unmount]) = Ready"
proof -
  let ?s = "restore_run restore_init [Restore_mount, Restore_respond 0 (Resolved 200 (JSON []))]"
  have r: "restore_reach ?s" using restore_reach_step_run [OF restore_reach.init] by blast
  have g: "gate_of ?s = Ready" by (simp add: restore_eval)
  show ?thesis using restore_gate_monotone [OF r g] r g unfolding Let_def by blast
qed

theorem restore_fetch_rejected_witness:
  "let s = restore_step restore_init Restore_mount
   in restore_reach s \<and> 0 < length (pending s) \<and> pending s ! 0 = Get_members
    \<and> restore_step s (Restore_respond 0 Rejected) =
        s\<lparr>pending := remove_at 0 (pending s), sink := sink s @ [Err_withdrawn_list]\<rparr>"
proof -
  let ?s = "restore_step restore_init Restore_mount"
  have p: "0 < length (pending ?s)" "pending ?s ! 0 = Get_members" by (simp_all add: restore_eval)
  show ?thesis using restore_fetch_rejected [OF restore_reach_mounted p] restore_reach_mounted p
    unfolding Let_def by blast
qed

theorem restore_write_resync_witness:
  "let s = restore_run restore_init
             [Restore_mount, Restore_click \<lparr>memberNo = 1, memberNickname = ''A''\<rparr> True]
   in restore_reach s \<and> 1 < length (pending s) \<and> pending s ! 1 = Put_restore 1
    \<and> restore_step s (Restore_respond 1 (Resolved 200 JSON_null)) =
        s\<lparr>pending := remove_at 1 (pending s) @ [Get_members], sink := sink s @ [Alert_restored],
          list_fetches := Suc (list_fetches s)\<rparr>"
proof -
  let ?s = "restore_run restore_init
             [Restore_mount, Restore_click \<lparr>memberNo = 1, memberNickname = ''A''\<rparr> True]"
  have p: "1 < length (pending ?s)" "pending ?s ! 1 = Put_restore 1" by (simp_all add: restore_eval)
  show ?thesis using restore_write_resync [OF restore_reach_clicked p] restore_reach_clicked p
    unfolding Let_def by blast
qed

theorem restore_last_write_wins_witness:
  "let s = restore_step restore_init Restore_mount
   in restore_reach s \<and> mounted s \<and> 0 < length (pending s) \<and> pending s ! 0 = Get_members
    \<and> snapshot (restore_step s (Restore_respond 0 (Resolved 200 (JSON [])))) = JObj (next_id s) []
    \<and> \<not> js_same (snapshot (restore_step s (Restore_respond 0 (Resolved 200 (JSON []))))) (snapshot s)
    \<and> gate_of (restore_step s (Restore_respond 0 (Resolved 200 (JSON [])))) = Ready"
proof -
  let ?s = "restore_step restore_init Restore_mount"
  have p: "mounted ?s" "0 < length (pending ?s)" "pending ?s ! 0 = Get_members"
    by (simp_all add: restore_eval)
  show ?thesis using restore_last_write_wins [OF restore_reach_mounted p, of "[]"] restore_reach_mounted p
    unfolding Let_def by blast
qed

theorem restore_fetch_non_200_witness:
  "let s = restore_step restore_init Restore_mount
   in restore_reach s \<and> 0 < length (pending s) \<and> pending s ! 0 = Get_members \<and> (204::nat) \<noteq> 200
    \<and> restore_step s (Restore_respond 0 (Resolved 204 JSON_null)) = s\<lparr>pending := remove_at 0 (pending s)\<rparr>"
proof -
  let ?s = "restore_step restore_init Restore_mount"
  have p: "0 < length (pending ?s)" "pending ?s ! 0 = Get_members" by (simp_all add: restore_eval)
  have st: "(204::nat) \<noteq> 200" by simp
  show ?thesis using restore_fetch_non_200 [OF restore_reach_mounted p st] restore_reach_mounted p st
    unfolding Let_def by blast
qed

theorem restore_write_rejected_witness:
  "let s = restore_run restore_init
             [Restore_mount, Restore_click \<lparr>memberNo = 1, memberNickname = ''A''\<rparr> True]
   in restore_reach s \<and> 1 < length (pending s) \<and> pending s ! 1 = Put_restore 1
    \<and> restore_step s (Restore_respond 1 Rejected) =
        s\<lparr>pending := remove_at 1 (pending s), sink := sink s @ [Err_restore]\<rparr>"
proof -
  let ?s = "restore_run restore_init
             [Restore_mount, Restore_click \<lparr>memberNo = 1, memberNickname = ''A''\<rparr> True]"
  have p: "1 < length (pending ?s)" "pending ?s ! 1 = Put_restore 1" by (simp_all add: restore_eval)
  show ?thesis using restore_write_rejected [OF restore_reach_clicked p] restore_reach_clicked p
    unfolding Let_def by blast
qed

theorem restore_confirm_witness:
  "let s = restore_step restore_init Restore_mount; m = \<lparr>memberNo = 7, memberNickname = ''B''\<rparr>
   in mounted s \<and> restore_reach s
    \<and> restore_step s (Restore_click m False) = s\<lparr>sink := sink s @ [Confirm_restore ''B'']\<rparr>
    \<and> restore_step s (Restore_click m True) =
        s\<lparr>sink := sink s @ [Confirm_restore ''B''], pending := pending s @ [Put_restore 7]\<rparr>"
proof -
  let ?s = "restore_step restore_init Restore_mount"
  have m: "mounted ?s" by (simp add: restore_eval)
  show ?thesis
    using restore_confirm [OF m restore_reach_mounted, of "\<lparr>memberNo = 7, memberNickname = ''B''\<rparr>"]
      m restore_reach_mounted
    unfolding Let_def by simp
qed

theorem restore_get_bound_witness:
  "let s = restore_run restore_init
             [Restore_mount, Restore_respond 0 Rejected,
              Restore_click \<lparr>memberNo = 1, memberNickname = ''A''\<rparr> True,
              Restore_respond 0 (Resolved 200 JSON_null), Restore_unmount, Restore_mount]
   in restore_reach s \<and> list_fetches s = 2 \<and> count_list (sink s) Alert_restored = 1"
proof -
  let ?s = "restore_run restore_init
             [Restore_mount, Restore_respond 0 Rejected,
              Restore_click \<lparr>memberNo = 1, memberNickname = ''A''\<rparr> True,
              Restore_respond 0 (Resolved 200 JSON_null), Restore_unmount, Restore_mount]"
  have r: "restore_reach ?s" using restore_reach_step_run [OF restore_reach.init] by blast
  have d: "gate_dep ?s \<noteq> None" and c: "count_list (sink ?s) Alert_restored = 1"
    by (simp_all add: restore_eval)
  show ?thesis using restore_get_bound [OF r] r d c unfolding Let_def by simp
qed

theorem restore_rejections_drain_witness:
  "let s = restore_run restore_init
             [Restore_mount, Restore_click \<lparr>memberNo = 1, memberNickname = ''A''\<rparr> True];
       t = restore_run s [Restore_respond 0 Rejected, Restore_respond 0 Rejected]
   in restore_reach s \<and> length (pending s) = 2 \<and> pending t = [] \<and> snapshot t = JNull
    \<and> isLoading t"
proof -
  let ?s = "restore_run restore_init
             [Restore_mount, Restore_click \<lparr>memberNo = 1, memberNickname = ''A''\<rparr> True]"
  have len: "length (pending ?s) = 2" and sn: "snapshot ?s = JNull" and il: "isLoading ?s"
    by (simp_all add: restore_eval)
  have "pending (restore_run ?s (replicate (length (pending ?s)) (Restore_respond 0 Rejected))) = []
    \<and> snapshot (restore_run ?s (replicate (length (pending ?s)) (Restore_respond 0 Rejected))) = snapshot ?s
    \<and> isLoading (restore_run ?s (replicate (length (pending ?s)) (Restore_respond 0 Rejected))) = isLoading ?s"
    by (rule restore_rejections_drain [OF restore_reach_clicked])
  then show ?thesis using restore_reach_clicked len sn il
    unfolding Let_def by (simp add: numeral_2_eq_2)
qed

end
