(* ===== verification/Restore_Queue.thy ===== *)
theory Restore_Queue
  imports Restore
begin

text \<open>
  The request queue of \<open>Restore.jsx\<close> under an environment that answers every request.
  \<open>restore_quiesce answer s\<close> settles the oldest request in flight with the outcome
  \<open>answer\<close> gives its kind, through the ordinary step \<open>restore_step\<close>, until no request
  is left. A successful write issues a member-list request (\<open>getWithdrawnMemberList()\<close>
  in \<open>restoreMember\<close>), so the queue can grow while it is settled. Termination follows
  from the weight \<open>req_weight\<close>, which every step lowers. The lemmas show that quiescence
  is reached, within as many events as the initial weight, by a run of the event system,
  and that a mounted component whose member-list requests succeed ends with its gate Ready.
\<close>

function restore_quiesce :: "(restore_req \<Rightarrow> member list outcome) \<Rightarrow> restore_st \<Rightarrow> restore_st" where
  "restore_quiesce answer s =
    (case pending s of
       [] \<Rightarrow> s
     | r # _ \<Rightarrow> restore_quiesce answer (restore_step s (Restore_respond 0 (answer r))))"
  by pat_completeness auto
termination
proof (relation "measure (\<lambda>(answer, s). sum_list (map req_weight (pending s)))")
  show "wf (measure (\<lambda>(answer, s). sum_list (map req_weight (pending s))))" by simp
next
  fix answer and s :: restore_st and r rs
  assume "pending s = r # rs"
  then show "((answer, restore_step s (Restore_respond 0 (answer r))), answer, s)
      \<in> measure (\<lambda>(answer, s). sum_list (map req_weight (pending s)))"
    using restore_step_head_weight [of s r rs "answer r"] by simp
qed

declare restore_quiesce.simps [simp del]

lemma restore_quiesce_Nil: "pending s = [] \<Longrightarrow> restore_quiesce answer s = s"
  by (subst restore_quiesce.simps) simp

lemma restore_quiesce_Cons:
  "pending s = r # rs \<Longrightarrow>
   restore_quiesce answer s = restore_quiesce answer (restore_step s (Restore_respond 0 (answer r)))"
  by (subst restore_quiesce.simps) simp

text \<open>A successful member-list response at the head of the queue of a mounted component
  sets the gate Ready.\<close>

lemma restore_get_head_ready:
  assumes reach: "restore_reach s" and m: "mounted s" and ps: "pending s = Get_members # rs"
  shows "gate_of (restore_step s (Restore_respond 0 (Resolved 200 (JSON v)))) = Ready"
proof -
  have ok1: "snap_ok (s\<lparr>pending := rs\<rparr>)" using restore_reach_ok [OF reach] by simp
  show ?thesis
    using fetch_commit_value [OF ok1 ready_ok_strict, where v = v and err = Err_withdrawn_list] m ps
    by (simp add: restore_step_def restore_respond_def gate_of_def)
qed

text \<open>C27: termination of the request queue: whatever the server answers, settling the
  oldest request until none is left ends. It ends with no request in flight, after a run of
  the event system no longer than the initial weight of the queue (a write counts twice,
  since its success issues one more member-list request).\<close>

theorem restore_quiesce_terminates:
  "pending (restore_quiesce answer s) = []
   \<and> (\<exists>es. length es \<le> sum_list (map req_weight (pending s))
          \<and> restore_quiesce answer s = restore_run s es)"
proof (induction answer s rule: restore_quiesce.induct)
  case (1 answer s)
  show ?case
  proof (cases "pending s")
    case Nil
    then show ?thesis using restore_quiesce_Nil [OF Nil]
      by (metis le0 list.size(3) restore_run.simps(1))
  next
    case (Cons r rs)
    let ?t = "restore_step s (Restore_respond 0 (answer r))"
    from "1.IH" [OF Cons] obtain es where
      p: "pending (restore_quiesce answer ?t) = []" and
      l: "length es \<le> sum_list (map req_weight (pending ?t))" and
      q: "restore_quiesce answer ?t = restore_run ?t es" by blast
    have "sum_list (map req_weight (pending ?t)) < sum_list (map req_weight (pending s))"
      using restore_step_head_weight [OF Cons] by blast
    with l have "length (Restore_respond 0 (answer r) # es) \<le> sum_list (map req_weight (pending s))"
      by simp
    moreover have "restore_quiesce answer s = restore_run s (Restore_respond 0 (answer r) # es)"
      using restore_quiesce_Cons [OF Cons] q by simp
    ultimately show ?thesis using p restore_quiesce_Cons [OF Cons] by metis
  qed
qed

text \<open>C28: liveness of the loading gate: a mounted component with a member-list request
  in flight, whose member-list requests the server answers with status 200 and a JSON body,
  ends with its gate Ready once every request has settled, whatever the writes in between
  answer.\<close>

theorem restore_quiesce_ready:
  assumes "restore_reach s" "mounted s" "Get_members \<in> set (pending s)"
    and ok: "answer Get_members = Resolved 200 (JSON v)"
  shows "gate_of (restore_quiesce answer s) = Ready"
proof -
  have gen: "gate_of (restore_quiesce answer t) = Ready"
    if "restore_reach t" "mounted t" "Get_members \<in> set (pending t) \<or> gate_of t = Ready"
      "answer Get_members = Resolved 200 (JSON v)" for t
    using that
  proof (induction answer t rule: restore_quiesce.induct)
    case (1 answer t)
    show ?case
    proof (cases "pending t")
      case Nil
      with "1.prems" show ?thesis by (simp add: restore_quiesce_Nil)
    next
      case (Cons r rs)
      let ?t = "restore_step t (Restore_respond 0 (answer r))"
      have reach: "restore_reach ?t" by (rule restore_reach.step [OF "1.prems"(1)])
      have hw: "mounted ?t = mounted t" "set rs \<subseteq> set (pending ?t)"
        using restore_step_head_weight [OF Cons] by blast+
      have mono: "gate_of t = Ready \<Longrightarrow> gate_of ?t = Ready"
        using restore_step_ok_gate [OF restore_reach_ok [OF "1.prems"(1)]] by simp
      have "Get_members \<in> set (pending ?t) \<or> gate_of ?t = Ready"
      proof (cases r)
        case Get_members
        with Cons have "pending t = Get_members # rs" by simp
        with "1.prems"(4) Get_members show ?thesis
          using restore_get_head_ready [OF "1.prems"(1) "1.prems"(2), of rs v] by simp
      next
        case (Put_restore n)
        with Cons "1.prems"(3) hw(2) mono show ?thesis by auto
      qed
      with "1.IH" [OF Cons] reach hw(1) "1.prems"(2,4) have "gate_of (restore_quiesce answer ?t) = Ready"
        by blast
      then show ?thesis by (simp add: restore_quiesce_Cons [OF Cons])
    qed
  qed
  show ?thesis using gen assms by blast
qed

subsection \<open>Witnesses\<close>

theorem restore_quiesce_ready_witness:
  "let s = restore_step restore_init Restore_mount;
       answer = (\<lambda>r. case r of Get_members \<Rightarrow> Resolved 200 (JSON []) | Put_restore _ \<Rightarrow> Rejected)
   in restore_reach s \<and> mounted s \<and> Get_members \<in> set (pending s)
    \<and> answer Get_members = Resolved 200 (JSON [])
    \<and> gate_of (restore_quiesce answer s) = Ready"
proof -
  let ?s = "restore_step restore_init Restore_mount"
  let ?a = "\<lambda>r. case r of Get_members \<Rightarrow> Resolved 200 (JSON ([] :: member list)) | Put_restore _ \<Rightarrow> Rejected"
  have m: "mounted ?s" and g: "Get_members \<in> set (pending ?s)" by (simp_all add: restore_eval)
  have a: "?a Get_members = Resolved 200 (JSON [])" by simp
  show ?thesis using restore_quiesce_ready [where answer = ?a and v = "[]", OF restore_reach_mounted m g a] restore_reach_mounted m g a
    unfolding Let_def by blast
qed

end
