(* ===== verification/Statistics.thy ===== *)
theory Statistics
  imports Fetch_Gate
begin

text \<open>
  The statistics screen, \<open>src/board-project-admin/src/components/Statistics.jsx\<close>.
  It keeps the most-read post in the shared snapshot record (\<open>readCountData\<close> and
  \<open>isLoading\<close>), fetches it once from the mount effect (\<open>getMaxReadCount\<close>), and
  clears the gate when \<open>readCountData != null\<close>. Its render reads five fields of
  \<open>readCountData\<close> as soon as the gate is clear, so reading them from \<open>null\<close> would
  throw a \<open>TypeError\<close>; the render is modelled with that error as a value.
  The environment may resolve the one request with any outcome, unmount the component, or
  do nothing. \<open>getMaxReadCount\<close> is split into the part that issues the request and
  its continuation \<open>getMaxReadCount_settle\<close>. \<open>getMaxLikeCount\<close> and
  \<open>getMaxCommentCount\<close> have empty bodies (the identity on the state), and their calls
  in the mount effect are commented out.
  The lemmas show the invariant of the reachable states (at most one request in flight,
  none once a post is shown, a clear gate only over a loaded post), that the render never
  throws, that exactly one request is sent over the component's lifetime (counted by the
  auxiliary counter \<open>reads_sent\<close>), that the gate refines the abstract gate, what a
  successful response shows, that any other outcome leaves the loading view forever, and
  that the gate never reverts. The whole-screen refinement is in \<open>Statistics_Spec\<close>.
\<close>

record read_count =
  boardName :: string
  boardNo :: nat
  boardTitle :: string
  readCount :: int
  memberNickname :: string

text \<open>\<open>inflight\<close> counts the requests that have not settled yet. \<open>reads_sent\<close> is an
  auxiliary (ghost) counter of the requests \<open>getMaxReadCount\<close> has sent; nothing reads it,
  it only records history for the lemmas.\<close>

record stats_st = "read_count snap" +
  inflight :: nat
  reads_sent :: nat

definition stats_init :: stats_st where
  "stats_init =
    \<lparr>snapshot = JNull, isLoading = True, gate_dep = None, next_id = 0, mounted = False,
     sink = [], inflight = 0, reads_sent = 0\<rparr>"

text \<open>\<open>getMaxReadCount\<close> issues \<open>axiosApi.get("/admin/maxReadCount")\<close>; its
  continuation is \<open>fetch_settle Err_max_read_count\<close>.\<close>

definition getMaxReadCount :: "stats_st \<Rightarrow> stats_st" where
  "getMaxReadCount s = s\<lparr>inflight := Suc (inflight s), reads_sent := Suc (reads_sent s)\<rparr>"

text \<open>The code after \<open>await\<close> in \<open>getMaxReadCount\<close>: \<open>setReadCountData(resp.data)\<close> on
  status 200, \<open>console.error\<close> with the component's message when the request is rejected.\<close>

definition getMaxReadCount_settle :: "read_count outcome \<Rightarrow> stats_st \<Rightarrow> stats_st" where
  "getMaxReadCount_settle out s = fetch_settle Err_max_read_count out s"

text \<open>\<open>getMaxLikeCount\<close> and \<open>getMaxCommentCount\<close> have empty bodies ("write it
  yourself"); their calls in the mount effect are commented out.\<close>

definition getMaxLikeCount :: "stats_st \<Rightarrow> stats_st" where
  "getMaxLikeCount s = s"

definition getMaxCommentCount :: "stats_st \<Rightarrow> stats_st" where
  "getMaxCommentCount s = s"

datatype stats_event = Stats_mount | Stats_respond "read_count outcome" | Stats_unmount

fun stats_handle :: "stats_event \<Rightarrow> stats_st \<Rightarrow> stats_st" where
  "stats_handle Stats_mount s =
     (if mounted s \<or> gate_dep s \<noteq> None then s else getMaxReadCount (s\<lparr>mounted := True\<rparr>))"
| "stats_handle (Stats_respond out) s =
     (if 0 < inflight s
      then getMaxReadCount_settle out (s\<lparr>inflight := inflight s - 1\<rparr>)
      else s)"
| "stats_handle Stats_unmount s = s\<lparr>mounted := False\<rparr>"

text \<open>The gate effect of Statistics tests \<open>readCountData != null\<close>.\<close>

definition stats_step :: "stats_st \<Rightarrow> stats_event \<Rightarrow> stats_st" where
  "stats_step s e = gate_commit loose_ready (stats_handle e s)"

fun stats_run :: "stats_st \<Rightarrow> stats_event list \<Rightarrow> stats_st" where
  "stats_run s [] = s"
| "stats_run s (e # es) = stats_run (stats_step s e) es"

datatype js_error = TypeError

datatype stats_view =
    Stats_loading
  | Stats_content string nat string int string

definition stats_render :: "stats_st \<Rightarrow> js_error + stats_view" where
  "stats_render s =
    (if isLoading s then Inr Stats_loading
     else (case snapshot s of
             JObj _ r \<Rightarrow>
               Inr (Stats_content (boardName r) (boardNo r) (boardTitle r) (readCount r)
                      (memberNickname r))
           | _ \<Rightarrow> Inl TypeError))"

inductive stats_reach :: "stats_st \<Rightarrow> bool" where
  init: "stats_reach stats_init"
| step: "stats_reach s \<Longrightarrow> stats_reach (stats_step s e)"

definition stats_inv :: "stats_st \<Rightarrow> bool" where
  "stats_inv s \<longleftrightarrow>
     snap_ok s \<and> inflight s \<le> 1
   \<and> (snapshot s \<noteq> JNull \<longrightarrow> inflight s = 0)
   \<and> (\<not> isLoading s \<longrightarrow> snapshot s \<noteq> JNull)
   \<and> (gate_dep s = None \<longrightarrow> inflight s = 0 \<and> \<not> mounted s \<and> snapshot s = JNull \<and> isLoading s)"

subsection \<open>Invariant and characterisation of the steps\<close>

declare getMaxReadCount_settle_def [simp]

lemma snap_ok_inflight [simp]: "snap_ok (s\<lparr>inflight := n\<rparr>) = snap_ok s"
  by (simp add: snap_ok_def)

lemma stats_commit_frame:
  "snap_ok s \<Longrightarrow> gate_commit r (s\<lparr>inflight := n\<rparr>) = s\<lparr>inflight := n\<rparr>"
  using snap_frame_ok [of s "s\<lparr>inflight := n\<rparr>" r] by (simp add: snap_frame_def)

lemma stats_respond_busy:
  assumes inv: "stats_inv s" and busy: "0 < inflight s"
  shows "inflight s = 1 \<and> snapshot s = JNull \<and> isLoading s"
  using assms by (auto simp: stats_inv_def)

lemma stats_respond_handle:
  "stats_inv s \<Longrightarrow> 0 < inflight s \<Longrightarrow>
   snap_ok (s\<lparr>inflight := 0\<rparr>) \<and>
   stats_handle (Stats_respond out) s = fetch_settle Err_max_read_count out (s\<lparr>inflight := 0\<rparr>)"
proof -
  assume inv: "stats_inv s" and busy: "0 < inflight s"
  have one: "inflight s = 1" using stats_respond_busy [OF inv busy] by blast
  have "snap_ok s" using inv unfolding stats_inv_def by blast
  with one busy show ?thesis by simp
qed

lemma stats_respond_value:
  assumes inv: "stats_inv s" and busy: "0 < inflight s" and m: "mounted s"
  shows "stats_step s (Stats_respond (Resolved 200 (JSON v))) =
    s\<lparr>inflight := 0, snapshot := JObj (next_id s) v, isLoading := False,
      gate_dep := Some (JObj (next_id s) v), next_id := Suc (next_id s)\<rparr>"
  using stats_respond_handle [OF inv busy] m
    fetch_commit_value [of "s\<lparr>inflight := 0\<rparr>" loose_ready, OF _ ready_ok_loose]
  by (simp add: stats_step_def)

lemma stats_respond_unmounted:
  assumes inv: "stats_inv s" and busy: "0 < inflight s" and m: "\<not> mounted s"
  shows "snapshot (stats_step s (Stats_respond out)) = snapshot s
       \<and> isLoading (stats_step s (Stats_respond out)) = isLoading s
       \<and> \<not> mounted (stats_step s (Stats_respond out))
       \<and> gate_dep (stats_step s (Stats_respond out)) = gate_dep s
       \<and> inflight (stats_step s (Stats_respond out)) = 0"
proof -
  have "inflight (fetch_settle Err_max_read_count out (s\<lparr>inflight := 0\<rparr>)) = 0"
  proof (cases out)
    case (Resolved st b)
    then show ?thesis by (cases b) (simp_all add: fetch_settle_def set_snapshot_def)
  qed (simp add: log_sink_def)
  then show ?thesis
    using stats_respond_handle [OF inv busy] m fetch_settle_unmounted [of "s\<lparr>inflight := 0\<rparr>"]
    by (simp add: stats_step_def)
qed

lemma stats_respond_no_value:
  assumes inv: "stats_inv s" and busy: "0 < inflight s" and nv: "\<forall>v. out \<noteq> Resolved 200 (JSON v)"
  shows "stats_step s (Stats_respond out) =
    (if out = Rejected then log_sink Err_max_read_count (s\<lparr>inflight := 0\<rparr>) else s\<lparr>inflight := 0\<rparr>)"
proof -
  have ok: "snap_ok (s\<lparr>inflight := 0\<rparr>)" and h: "stats_handle (Stats_respond out) s =
      fetch_settle Err_max_read_count out (s\<lparr>inflight := 0\<rparr>)"
    using stats_respond_handle [OF inv busy] by auto
  have null: "snapshot s = JNull" using stats_respond_busy [OF inv busy] by simp
  have "fetch_settle Err_max_read_count out (s\<lparr>inflight := 0\<rparr>) =
    (if out = Rejected then log_sink Err_max_read_count (s\<lparr>inflight := 0\<rparr>) else s\<lparr>inflight := 0\<rparr>)"
  proof (cases out)
    case (Resolved st b)
    with nv null show ?thesis by (cases b) (auto simp: fetch_settle_def set_snapshot_def)
  qed simp
  then show ?thesis
    using h gate_commit_log [OF ok] stats_commit_frame [OF ok [simplified]]
    by (simp add: stats_step_def)
qed

lemmas stats_unfold = stats_step_def stats_inv_def gate_commit_def snap_ok_def loose_ready_def
  set_loading_def getMaxReadCount_def

lemma stats_step_idle:
  "stats_inv s \<Longrightarrow> \<not> 0 < inflight s \<Longrightarrow> stats_step s (Stats_respond out) = s"
  using snap_frame_ok [of s s loose_ready] by (simp add: stats_step_def stats_inv_def)

lemma stats_step_inv:
  assumes inv: "stats_inv s"
  shows "stats_inv (stats_step s e)"
proof (cases e)
  case Stats_mount
  with inv show ?thesis by (auto simp: stats_unfold)
next
  case Stats_unmount
  with inv show ?thesis by (auto simp: stats_unfold)
next
  case (Stats_respond out)
  show ?thesis
  proof (cases "0 < inflight s")
    case False
    with inv Stats_respond show ?thesis by (simp add: stats_step_idle)
  next
    case busy: True
    have b: "inflight s = 1 \<and> snapshot s = JNull \<and> isLoading s" by (rule stats_respond_busy [OF inv busy])
    show ?thesis
    proof (cases "\<exists>v. out = Resolved 200 (JSON v)")
      case True
      then obtain v where v: "out = Resolved 200 (JSON v)" by blast
      show ?thesis
      proof (cases "mounted s")
        case True
        with inv b show ?thesis using Stats_respond v stats_respond_value [OF inv busy True]
          by (simp add: stats_inv_def snap_ok_def)
      next
        case False
        then show ?thesis using inv b Stats_respond stats_respond_unmounted [OF inv busy False, of out]
          unfolding stats_inv_def snap_ok_def by auto
      qed
    next
      case False
      then show ?thesis using inv b Stats_respond stats_respond_no_value [OF inv busy, of out]
        by (auto simp: stats_inv_def snap_ok_def log_sink_def)
    qed
  qed
qed

lemma stats_init_inv: "stats_inv stats_init"
  by (simp add: stats_init_def stats_inv_def snap_ok_def)

lemma stats_reach_inv: "stats_reach s \<Longrightarrow> stats_inv s"
proof (induction rule: stats_reach.induct)
  case init
  show ?case by (rule stats_init_inv)
next
  case (step s e)
  from step.IH show ?case by (rule stats_step_inv)
qed

lemma stats_step_shape:
  assumes inv: "stats_inv s"
  shows "(snapshot (stats_step s e) = snapshot s \<and> isLoading (stats_step s e) = isLoading s)
       \<or> (\<exists>a v. snapshot (stats_step s e) = JObj a v \<and> \<not> isLoading (stats_step s e))"
proof (cases e)
  case Stats_mount
  with inv show ?thesis by (auto simp: stats_unfold)
next
  case Stats_unmount
  with inv show ?thesis by (auto simp: stats_unfold)
next
  case (Stats_respond out)
  show ?thesis
  proof (cases "0 < inflight s")
    case False
    with Stats_respond inv show ?thesis by (simp add: stats_step_idle)
  next
    case busy: True
    show ?thesis
    proof (cases "\<exists>v. out = Resolved 200 (JSON v)")
      case True
      then obtain v where v: "out = Resolved 200 (JSON v)" by blast
      show ?thesis
      proof (cases "mounted s")
        case True
        with Stats_respond v stats_respond_value [OF inv busy True] show ?thesis by simp
      next
        case False
        with Stats_respond stats_respond_unmounted [OF inv busy False, of out] show ?thesis by simp
      qed
    next
      case False
      with Stats_respond stats_respond_no_value [OF inv busy, of out] show ?thesis
        by (simp add: log_sink_def)
    qed
  qed
qed

lemma stats_stuck_step:
  assumes inv: "stats_inv s" and i: "inflight s = 0" and d: "gate_dep s \<noteq> None" and l: "isLoading s"
  shows "stats_inv (stats_step s e) \<and> inflight (stats_step s e) = 0
       \<and> gate_dep (stats_step s e) \<noteq> None \<and> isLoading (stats_step s e)"
proof (cases e)
  case Stats_mount
  with inv d l i show ?thesis by (auto simp: stats_unfold)
next
  case Stats_unmount
  with inv d l i show ?thesis by (auto simp: stats_unfold)
next
  case (Stats_respond out)
  with inv i d l show ?thesis by (simp add: stats_step_idle)
qed

lemma stats_step_gate:
  assumes inv: "stats_inv s"
  shows "gate_of (stats_step s e) = spec_gate (gate_of s) (abs_snapshot (snapshot (stats_step s e)))"
proof -
  have ok: "snap_ok s" using inv by (simp add: stats_inv_def)
  from stats_step_shape [OF inv, of e] show ?thesis
  proof
    assume "snapshot (stats_step s e) = snapshot s \<and> isLoading (stats_step s e) = isLoading s"
    with gate_of_frame [OF ok] show ?thesis by (simp add: gate_of_def)
  next
    assume "\<exists>a v. snapshot (stats_step s e) = JObj a v \<and> \<not> isLoading (stats_step s e)"
    then show ?thesis by (auto simp: gate_of_def)
  qed
qed

lemma stats_reach_step_run: "stats_reach s \<Longrightarrow> stats_reach (stats_run s es)"
  by (induction es arbitrary: s) (simp_all add: stats_reach.step)

text \<open>Only the first mount sends a request: every step keeps the count of requests
  sent, except a mount before the first commit, which sends one and commits.\<close>

lemma stats_step_sent:
  assumes inv: "stats_inv s"
  shows "reads_sent (stats_step s e) =
           (if gate_dep s = None \<and> e = Stats_mount then Suc (reads_sent s) else reads_sent s)
    \<and> (gate_dep (stats_step s e) = None \<longleftrightarrow> gate_dep s = None \<and> e \<noteq> Stats_mount)"
proof (cases e)
  case (Stats_respond out)
  show ?thesis
  proof (cases "0 < inflight s")
    case True
    have "reads_sent (fetch_settle Err_max_read_count out (s\<lparr>inflight := 0\<rparr>)) = reads_sent s
        \<and> gate_dep (fetch_settle Err_max_read_count out (s\<lparr>inflight := 0\<rparr>)) = gate_dep s"
    proof (cases out)
      case (Resolved st b)
      then show ?thesis by (cases b) (simp_all add: fetch_settle_def set_snapshot_def)
    qed (simp add: log_sink_def)
    moreover have "gate_dep s \<noteq> None" using inv True by (auto simp: stats_inv_def)
    ultimately show ?thesis using Stats_respond stats_respond_handle [OF inv True]
      by (simp add: stats_step_def gate_commit_def set_loading_def split: option.splits)
  next
    case False
    with Stats_respond show ?thesis by (simp add: stats_step_idle [OF inv])
  qed
qed (use inv in \<open>auto simp: stats_unfold getMaxReadCount_def split: option.splits\<close>)

text \<open>C17: in every reachable state the render of Statistics succeeds: the content view, which reads five fields of readCountData, is shown only over a loaded post, never over null.\<close>

theorem stats_render_safe: "stats_reach s \<Longrightarrow> stats_render s \<noteq> Inl TypeError"
proof -
  assume "stats_reach s"
  then have inv: "stats_inv s" by (rule stats_reach_inv)
  then show ?thesis
    by (cases "snapshot s") (auto simp: stats_render_def stats_inv_def snap_ok_def)
qed

text \<open>C18: when the one request of Statistics ends in anything but a 200 response with a JSON body (a rejection, another status, or a JSON null body), the loading view stays forever, whatever happens next: there is no retry and the gate never sees a set snapshot.\<close>

theorem stats_loading_forever:
  assumes "stats_reach s" "0 < inflight s" "\<forall>v. out \<noteq> Resolved 200 (JSON v)"
  shows "stats_render (stats_run (stats_step s (Stats_respond out)) es) = Inr Stats_loading"
proof -
  have inv: "stats_inv s" using assms(1) by (rule stats_reach_inv)
  let ?t = "stats_step s (Stats_respond out)"
  have b: "inflight s = 1 \<and> snapshot s = JNull \<and> isLoading s" by (rule stats_respond_busy [OF inv assms(2)])
  have d: "gate_dep s \<noteq> None" using inv assms(2) by (auto simp: stats_inv_def)
  have "stats_inv ?t" by (rule stats_step_inv [OF inv])
  moreover have "inflight ?t = 0 \<and> gate_dep ?t \<noteq> None \<and> isLoading ?t"
    using stats_respond_no_value [OF inv assms(2,3)] b d by (simp add: log_sink_def)
  ultimately have t: "stats_inv ?t \<and> inflight ?t = 0 \<and> gate_dep ?t \<noteq> None \<and> isLoading ?t"
    by blast
  have "stats_inv u \<Longrightarrow> inflight u = 0 \<Longrightarrow> gate_dep u \<noteq> None \<Longrightarrow> isLoading u \<Longrightarrow>
    isLoading (stats_run u es)" for u
  proof (induction es arbitrary: u)
    case Nil
    then show ?case by simp
  next
    case (Cons e es)
    from stats_stuck_step [OF Cons.prems, of e] Cons.IH show ?case by simp
  qed
  with t show ?thesis by (simp add: stats_render_def)
qed

text \<open>C19: the mount effect with an empty dependency list sends one request over the
  component's lifetime: none before the first commit, exactly one after it, whatever
  responses, remounts and unmounts follow (no retry, no refetch).\<close>

theorem stats_fetch_once:
  "stats_reach s \<Longrightarrow> reads_sent s = (if gate_dep s = None then 0 else 1)"
proof (induction rule: stats_reach.induct)
  case init
  show ?case by (simp add: stats_init_def)
next
  case (step s e)
  then show ?case using stats_step_sent [OF stats_reach_inv [OF step.hyps]]
    by (auto split: if_splits)
qed

text \<open>C20: the loading gate of Statistics refines the abstract gate: after any event from a reachable state it is what the abstract machine computes from the previous gate and the new snapshot.\<close>

theorem stats_gate_refines:
  "stats_reach s \<Longrightarrow>
   gate_of (stats_step s e) = spec_gate (gate_of s) (abs_snapshot (snapshot (stats_step s e)))"
  using stats_step_gate stats_reach_inv by blast

text \<open>C21: a 200 response with a post, on a mounted component, shows that post: its board name, number, title, read count and author nickname.\<close>

theorem stats_success_render:
  assumes "stats_reach s" "mounted s" "0 < inflight s"
  shows "stats_render (stats_step s (Stats_respond (Resolved 200 (JSON r)))) =
    Inr (Stats_content (boardName r) (boardNo r) (boardTitle r) (readCount r) (memberNickname r))"
  using stats_respond_value [OF stats_reach_inv [OF assms(1)] assms(3) assms(2)]
  by (simp add: stats_render_def)

lemmas stats_eval = stats_step_def gate_commit_def fetch_settle_def set_snapshot_def set_loading_def
  getMaxReadCount_def stats_init_def stats_render_def loose_ready_def

text \<open>C22: once Ready, the gate of Statistics stays Ready under any sequence of events:
  late responses, remounts and unmounts never bring back the loading view.\<close>

theorem stats_gate_monotone:
  "stats_reach s \<Longrightarrow> gate_of s = Ready \<Longrightarrow> gate_of (stats_run s es) = Ready"
proof (induction es arbitrary: s)
  case Nil
  then show ?case by simp
next
  case (Cons e es)
  have "gate_of (stats_step s e) = Ready"
    using stats_step_gate [OF stats_reach_inv [OF Cons.prems(1)], of e] Cons.prems(2) by simp
  with Cons.IH [of "stats_step s e"] Cons.prems(1) show ?case
    by (simp add: stats_reach.step)
qed

text \<open>The bound on the requests of Statistics: in every reachable state at most one
  \<open>getMaxReadCount\<close> request is in flight, and none once a post is shown.\<close>

theorem stats_inflight_bound:
  assumes "stats_reach s"
  shows "inflight s \<le> 1 \<and> (snapshot s \<noteq> JNull \<longrightarrow> inflight s = 0)"
  using stats_reach_inv [OF assms] by (simp add: stats_inv_def)

subsection \<open>Witnesses\<close>

lemma stats_reach_mounted: "stats_reach (stats_step stats_init Stats_mount)"
  by (rule stats_reach.step [OF stats_reach.init])

lemma stats_mounted_facts:
  "mounted (stats_step stats_init Stats_mount) \<and> inflight (stats_step stats_init Stats_mount) = 1
   \<and> gate_dep (stats_step stats_init Stats_mount) = Some JNull"
  by (simp add: stats_eval)

theorem stats_render_safe_witness:
  "stats_reach (stats_step stats_init Stats_mount)
   \<and> stats_render (stats_step stats_init Stats_mount) \<noteq> Inl TypeError"
  using stats_render_safe [OF stats_reach_mounted] stats_reach_mounted by blast

theorem stats_loading_forever_witness:
  "let s = stats_step stats_init Stats_mount
   in stats_reach s \<and> 0 < inflight s
    \<and> (\<forall>v. Resolved 200 (JSON_null :: read_count json) \<noteq> Resolved 200 (JSON v))
    \<and> stats_render (stats_run (stats_step s (Stats_respond (Resolved 200 JSON_null)))
         [Stats_unmount, Stats_mount]) = Inr Stats_loading"
proof -
  let ?s = "stats_step stats_init Stats_mount"
  have p: "0 < inflight ?s" using stats_mounted_facts by simp
  have nv: "\<forall>v. Resolved 200 (JSON_null :: read_count json) \<noteq> Resolved 200 (JSON v)" by simp
  show ?thesis
    using stats_loading_forever [OF stats_reach_mounted p nv, of "[Stats_unmount, Stats_mount]"]
      stats_reach_mounted p nv
    unfolding Let_def by blast
qed

theorem stats_fetch_once_witness:
  "let r = \<lparr>boardName = ''free'', boardNo = 7, boardTitle = ''hello'', readCount = 42,
            memberNickname = ''kim''\<rparr>;
       s = stats_run stats_init [Stats_mount, Stats_respond Rejected, Stats_unmount, Stats_mount,
             Stats_respond (Resolved 200 (JSON r))]
   in stats_reach s \<and> gate_dep s \<noteq> None \<and> reads_sent s = 1"
proof -
  let ?r = "\<lparr>boardName = ''free'', boardNo = 7, boardTitle = ''hello'', readCount = 42,
            memberNickname = ''kim''\<rparr>"
  let ?s = "stats_run stats_init [Stats_mount, Stats_respond Rejected, Stats_unmount, Stats_mount,
             Stats_respond (Resolved 200 (JSON ?r))]"
  have r: "stats_reach ?s" using stats_reach_step_run [OF stats_reach.init] by blast
  have d: "gate_dep ?s \<noteq> None" by (simp add: stats_eval log_sink_def)
  show ?thesis using stats_fetch_once [OF r] r d unfolding Let_def by simp
qed

theorem stats_gate_refines_witness:
  "stats_reach stats_init
   \<and> gate_of (stats_step stats_init Stats_mount) =
       spec_gate (gate_of stats_init) (abs_snapshot (snapshot (stats_step stats_init Stats_mount)))"
  using stats_gate_refines [OF stats_reach.init] stats_reach.init by blast

theorem stats_success_render_witness:
  "let s = stats_step stats_init Stats_mount;
       r = \<lparr>boardName = ''free'', boardNo = 7, boardTitle = ''hello'', readCount = 42,
            memberNickname = ''kim''\<rparr>
   in stats_reach s \<and> mounted s \<and> 0 < inflight s
    \<and> stats_render (stats_step s (Stats_respond (Resolved 200 (JSON r)))) =
        Inr (Stats_content ''free'' 7 ''hello'' 42 ''kim'')"
proof -
  let ?s = "stats_step stats_init Stats_mount"
  have p: "mounted ?s" "0 < inflight ?s" using stats_mounted_facts by simp_all
  show ?thesis using stats_success_render [OF stats_reach_mounted p] stats_reach_mounted p
    unfolding Let_def by simp
qed

theorem stats_gate_monotone_witness:
  "let r = \<lparr>boardName = ''free'', boardNo = 7, boardTitle = ''hello'', readCount = 42,
            memberNickname = ''kim''\<rparr>;
       s = stats_run stats_init [Stats_mount, Stats_respond (Resolved 200 (JSON r))]
   in stats_reach s \<and> gate_of s = Ready
    \<and> gate_of (stats_run s [Stats_respond Rejected, Stats_unmount, Stats_mount]) = Ready"
proof -
  let ?r = "\<lparr>boardName = ''free'', boardNo = 7, boardTitle = ''hello'', readCount = 42,
            memberNickname = ''kim''\<rparr>"
  let ?s = "stats_run stats_init [Stats_mount, Stats_respond (Resolved 200 (JSON ?r))]"
  have r: "stats_reach ?s" using stats_reach_step_run [OF stats_reach.init] by blast
  have g: "gate_of ?s = Ready" by (simp add: stats_eval gate_of_def)
  show ?thesis using stats_gate_monotone [OF r g] r g unfolding Let_def by blast
qed

theorem stats_inflight_bound_witness:
  "stats_reach (stats_step stats_init Stats_mount)
   \<and> inflight (stats_step stats_init Stats_mount) \<le> 1"
  using stats_inflight_bound [OF stats_reach_mounted] stats_reach_mounted by simp

end
