(* ===== verification/Statistics_Spec.thy ===== *)
theory Statistics_Spec
  imports Statistics
begin

text \<open>
  What the statistics screen of \<open>Statistics.jsx\<close> promises, as an abstract machine over
  its phase and the mounted flag. The screen is \<open>Stats_fresh\<close> before its first mount;
  mounting issues the one request (\<open>Stats_waiting\<close>); the response settles it, and the
  post is shown (\<open>Stats_shown\<close>) exactly when the response is a 200 with a JSON body
  and the component is still mounted; any other settlement leaves \<open>Stats_settled\<close>, the
  loading view. Every other event keeps the phase, unmounting clears the flag.
  \<open>stats_abs\<close> reads the phase off a component state; the lemmas show that each
  step of the component is a step of this machine on every state satisfying
  \<open>stats_inv\<close>, and that the rendered view is the machine's view.
\<close>

datatype stats_phase = Stats_fresh | Stats_waiting | Stats_settled | Stats_shown read_count

fun spec_stats_step :: "stats_phase \<times> bool \<Rightarrow> stats_event \<Rightarrow> stats_phase \<times> bool" where
  "spec_stats_step (Stats_fresh, m) Stats_mount = (Stats_waiting, True)"
| "spec_stats_step (Stats_waiting, m) (Stats_respond out) =
     ((case out of
         Resolved st (JSON r) \<Rightarrow> if st = 200 \<and> m then Stats_shown r else Stats_settled
       | _ \<Rightarrow> Stats_settled), m)"
| "spec_stats_step (p, m) Stats_unmount = (p, False)"
| "spec_stats_step (p, m) e = (p, m)"

fun spec_stats_view :: "stats_phase \<Rightarrow> stats_view" where
  "spec_stats_view (Stats_shown r) =
     Stats_content (boardName r) (boardNo r) (boardTitle r) (readCount r) (memberNickname r)"
| "spec_stats_view _ = Stats_loading"

definition stats_abs :: "stats_st \<Rightarrow> stats_phase \<times> bool" where
  "stats_abs s =
    (if gate_dep s = None then Stats_fresh
     else if 0 < inflight s then Stats_waiting
     else (case snapshot s of JObj _ r \<Rightarrow> Stats_shown r | _ \<Rightarrow> Stats_settled),
     mounted s)"

subsection \<open>Simulation\<close>

lemma stats_render_abs:
  assumes "stats_inv s"
  shows "stats_render s = Inr (spec_stats_view (fst (stats_abs s)))"
  using assms
  by (cases "snapshot s") (auto simp: stats_inv_def snap_ok_def stats_render_def stats_abs_def)

lemma stats_step_abs:
  assumes inv: "stats_inv s"
  shows "stats_abs (stats_step s e) = spec_stats_step (stats_abs s) e"
proof (cases e)
  case Stats_mount
  with inv show ?thesis
    by (cases "snapshot s")
       (auto simp: stats_unfold stats_abs_def getMaxReadCount_def split: option.splits)
next
  case Stats_unmount
  with inv show ?thesis
    by (cases "snapshot s") (auto simp: stats_unfold stats_abs_def split: option.splits)
next
  case (Stats_respond out)
  show ?thesis
  proof (cases "0 < inflight s")
    case False
    obtain p m where pm: "stats_abs s = (p, m)" by (cases "stats_abs s")
    have "p \<noteq> Stats_waiting"
      using False pm by (auto simp: stats_abs_def split: if_splits jsval.splits)
    with Stats_respond pm show ?thesis
      by (cases p) (simp_all add: stats_step_idle [OF inv False])
  next
    case busy: True
    have w: "stats_abs s = (Stats_waiting, mounted s)" and null: "snapshot s = JNull"
      using inv busy by (auto simp: stats_abs_def stats_inv_def)
    show ?thesis
    proof (cases "\<exists>v. out = Resolved 200 (JSON v)")
      case True
      then obtain v where v: "out = Resolved 200 (JSON v)" by blast
      show ?thesis
      proof (cases "mounted s")
        case True
        with Stats_respond v w show ?thesis
          using stats_respond_value [OF inv busy True] by (simp add: stats_abs_def)
      next
        case False
        with Stats_respond v w null show ?thesis
          using stats_respond_unmounted [OF inv busy False, of out] inv busy
          by (auto simp: stats_abs_def stats_inv_def)
      qed
    next
      case False
      then have nv: "\<forall>v. out \<noteq> Resolved 200 (JSON v)" by blast
      have sp: "fst (spec_stats_step (Stats_waiting, mounted s) (Stats_respond out)) = Stats_settled"
        using nv by (cases out rule: outcome.exhaust) (auto split: json.splits)
      show ?thesis
        using Stats_respond w null sp stats_respond_no_value [OF inv busy nv] inv busy
        by (auto simp: stats_abs_def stats_inv_def log_sink_def)
    qed
  qed
qed

lemma stats_run_abs:
  "stats_inv s \<Longrightarrow> stats_abs (stats_run s es) = foldl spec_stats_step (stats_abs s) es"
  by (induction es arbitrary: s) (simp_all add: stats_step_abs stats_step_inv)

text \<open>C23: the statistics screen refines its abstract machine: from the initial render,
  after any sequence of mounts, responses (with any outcome) and unmounts, the rendered
  view is the view of the machine's phase after the same events. It shows the loading view
  until the one request is answered with status 200 and a JSON body while mounted, then
  that post for good; any other answer leaves the loading view for good.\<close>

theorem stats_screen_refines:
  "stats_render (stats_run stats_init es) =
     Inr (spec_stats_view (fst (foldl spec_stats_step (Stats_fresh, False) es)))"
proof -
  have r: "stats_reach (stats_run stats_init es)" by (rule stats_reach_step_run [OF stats_reach.init])
  have a: "stats_abs stats_init = (Stats_fresh, False)" by (simp add: stats_abs_def stats_init_def)
  show ?thesis
    using stats_render_abs [OF stats_reach_inv [OF r]] stats_run_abs [OF stats_init_inv, of es] a
    by simp
qed

end
