(* ===== verification/Spec2Isabelle.thy ===== *)
theory Spec2Isabelle
  imports TodoList Restore_Queue Statistics_Spec
begin

text \<open>
  \<^bold>\<open>A verification library for the React collection components of the repository.\<close>

  \<^bold>\<open>The program.\<close> Three React function components, each keeping a client-side
  snapshot of a collection in \<open>useState\<close> cells:
  \<^item> \<open>src/my-react-app/src/components/TodoList.jsx\<close>: a purely local to-do list. Its
    handlers \<open>handleAddTodo\<close>, \<open>handleToggleTodo\<close> and \<open>handleDeleteTodo\<close> build a
    new array (spread, \<open>map\<close>, \<open>filter\<close>) and hand it to \<open>setTodoList\<close>;
  \<^item> \<open>src/board-project-admin/src/components/Restore.jsx\<close>: the list of withdrawn
    members, fetched on mount (\<open>getWithdrawnMemberList\<close>), with a confirm / write /
    re-fetch mutation (\<open>restoreMember\<close>) and a loading gate (\<open>isLoading\<close>);
  \<^item> \<open>src/board-project-admin/src/components/Statistics.jsx\<close>: the most-read post,
    fetched once on mount (\<open>getMaxReadCount\<close>), behind the same kind of gate.
  The components interact with React only: a setter schedules a re-render unless
  \<open>Object.is\<close> says the new value is the current one, and an effect runs after a
  commit in which one of its dependencies changed.

  \<^bold>\<open>The theories.\<close>
  \<^item> \<open>React_Prelude\<close>: the JavaScript built-ins the components call
    (\<open>Array.prototype.map\<close> and \<open>filter\<close> with an index callback, as \<open>js_map_st\<close>,
    \<open>js_map_idx\<close>, \<open>js_filter_idx\<close>), JavaScript values with identity (\<open>jsval\<close>,
    \<open>Object.is\<close> as \<open>js_same\<close>, \<open>=== null\<close> and \<open>== null\<close>), and the generic
    list and map lemmas the components share.
  \<^item> \<open>Js_Heap\<close>: objects and arrays with identities in one address space with a
    next-free counter (\<open>reserve\<close>, \<open>new_obj\<close>, \<open>set_arr\<close>), its well-formedness
    \<open>heap_wf\<close> and heap extension \<open>heap_ext\<close> (nothing old is overwritten).
  \<^item> \<open>TodoList\<close>: the state record \<open>todo_comp\<close> (the heap, the \<open>todoList\<close> and
    \<open>inputValue\<close> cells and React's pending re-render), the setters with their
    \<open>Object.is\<close> bail-out, the initial state, one definition per handler
    (\<open>handleAddTodo\<close>, \<open>handleToggleTodo\<close> with its callback \<open>toggle_cb\<close>,
    \<open>handleDeleteTodo\<close>), the events of the page and their step function
    \<open>todo_step\<close>, the render \<open>render_todo\<close>, the reachable states \<open>todo_reach\<close>.
    Its lemmas show that each handler implements the spec's list operation on the
    abstraction \<open>todos\<close> (append, toggle, remove, out-of-range indices included), that
    every edit installs an array of fresh identity (so React re-renders), that a toggle
    shares every untouched element by reference, that no event overwrites an existing
    object or array, the invariant of the reachable states, and the render. The main
    result is the refinement of the spec's local editor \<open>spec_todo_step\<close> (on the
    to-do values and the input text, via \<open>todo_abs\<close>) over whole event sequences.
  \<^item> \<open>Fetch_Gate\<close>: what the two remote components share. The record \<open>snap\<close> holds
    the \<open>useState(null)\<close> snapshot as a \<open>jsval\<close>, the \<open>isLoading\<close> cell, the
    dependency last seen by the gate effect (\<open>gate_dep\<close>), the identity allocator for
    decoded JSON bodies, whether the component is mounted, and the \<open>console\<close>/\<open>alert\<close>
    sink. \<open>fetch_settle\<close> is the continuation of a fetch function (status 200 installs
    the decoded body with a fresh identity, another status is ignored, a rejection is
    logged). \<open>gate_commit\<close> is the gate effect: it runs after a commit in which its
    dependency changed by \<open>Object.is\<close> and clears \<open>isLoading\<close> when the test accepts the
    snapshot. \<open>strict_ready\<close> and \<open>loose_ready\<close> are the tests \<open>!== null\<close> and
    \<open>!= null\<close>. The abstract contract is an \<open>Unset\<close>/\<open>Set\<close> snapshot with an
    \<open>Uninitialized\<close>/\<open>Ready\<close> gate (\<open>spec_gate\<close>), read off the state by \<open>gate_of\<close>.
    Its lemmas prove that one settle-and-commit keeps the invariant \<open>snap_ok\<close> and
    refines \<open>spec_gate\<close>, for any test satisfying \<open>ready_ok\<close>.
  \<^item> \<open>Restore\<close>: \<open>restore_st\<close> is \<open>snap\<close> plus the in-flight requests
    (\<open>Get_members\<close> for \<open>getWithdrawnMemberList\<close>, \<open>Put_restore\<close> for the write of
    \<open>restoreMember\<close>). The events are the mount, the resolution of any pending request
    in any order, a confirm answer, and unmount. \<open>restore_step\<close> runs the handler and
    then the gate effect, and \<open>restore_reach\<close> is the set of reachable states. The lemmas
    cover: refinement of the abstract gate and its monotonicity; stale-on-error for
    rejections and non-200 statuses; resync without an optimistic update after a write;
    the failed write; the confirm dialog; last write wins, so an older response that
    settles later overwrites a newer list. Two lemmas concern the requests.
    \<open>restore_st\<close> carries an auxiliary counter \<open>list_fetches\<close> of the calls of
    \<open>getWithdrawnMemberList\<close>. It equals one for the mount effect plus one per successful
    restore, so nothing else sends the list request, and nothing retries. Drain: rejecting
    every request empties the queue and leaves the snapshot and the gate as they were.
  \<^item> \<open>Restore_Queue\<close>: the request queue of Restore under an environment that answers
    every request. \<open>restore_quiesce answer s\<close> settles the oldest request through
    \<open>restore_step\<close> until none is left. It is a \<open>function\<close> whose termination is
    proved by the weight \<open>req_weight\<close> of the queue: a member-list request counts one, a
    write two, because a successful write issues one re-fetch. The lemmas show that
    quiescence is reached within that many events by a run of the event system. They also
    show that a mounted component whose member-list requests succeed ends with its gate
    Ready.
  \<^item> \<open>Statistics\<close>: \<open>stats_st\<close> is \<open>snap\<close> plus the number of requests in flight and
    an auxiliary counter \<open>reads_sent\<close> of the requests sent.
    Its events are mount, the response and unmount, with \<open>stats_step\<close> and
    \<open>stats_reach\<close>. The render \<open>stats_render\<close> returns a \<open>TypeError\<close> where the JSX
    would read a field of \<open>null\<close>. The invariant \<open>stats_inv\<close> of the reachable states
    gives: a render that never fails; exactly one request sent over the lifetime;
    refinement and monotonicity
    of the gate; the rendered post on success; and a loading view that stays forever
    after a failed, non-200 or null response. \<open>getMaxReadCount\<close> is modelled as the
    part that issues the request and its continuation \<open>getMaxReadCount_settle\<close>.
  \<^item> \<open>Statistics_Spec\<close>: what the statistics screen promises, as an abstract machine
    \<open>spec_stats_step\<close> over a phase (fresh, waiting, settled, shown) and the mounted
    flag, with its view \<open>spec_stats_view\<close>. \<open>stats_abs\<close> reads the phase off a
    component state. The lemmas show that every step on a state satisfying
    \<open>stats_inv\<close> is a step of the machine, so from the initial render the component
    shows exactly the machine's view after any sequence of events.
  \<^item> This theory: the documentation of the development; it imports every other theory.

  \<^bold>\<open>Environment.\<close> The HTTP client is the environment. Every request is recorded as
  pending, and an event resolves any pending one, in any order, with any outcome
  (\<open>Resolved status body\<close> or \<open>Rejected\<close>). This covers every interleaving of the
  responses that a real network allows. The confirm dialog's answer is part of the
  click event.

  \<^bold>\<open>Bounds and fuel.\<close> No loop of the program runs unboundedly: the array callbacks
  are structural recursions over the array and the event runners (\<open>todo_run\<close>,
  \<open>restore_run\<close>, \<open>stats_run\<close>) over the event list, so no fuel is needed. The one
  recursion that is not structural is the environment driver \<open>restore_quiesce\<close>, whose
  queue may grow while it is settled; it terminates by the measure \<open>req_weight\<close>.
  JavaScript numbers used here (indices, addresses, status codes) stay far below
  \<open>2^53\<close>, so they are modelled as \<open>nat\<close>. The bounds the program does have are on
  the requests it sends, counted by the auxiliary counters: one in Statistics, and one plus
  the successful restores for the member list of Restore.

  \<^bold>\<open>Not modelled.\<close> The HTTP client (\<open>axiosApi\<close>, whose source is not in the
  repository) is an environment that answers each request with an outcome; markup and
  styling other than the rendered list; routing; React's scheduler beyond "setters
  bail out on \<open>Object.is\<close>, effects run after a commit that changed their
  dependencies"; StrictMode's double mount (a remount of the same instance does not re-run
  the mount effect in the model). \<open>getMaxLikeCount\<close> and \<open>getMaxCommentCount\<close> of
  \<open>Statistics.jsx\<close> have empty bodies; they are modelled as the identity and are never
  called. The comment block at the end of \<open>TodoList.jsx\<close> is prose, not code.
  The \<open>useEffect\<close> of \<open>Restore.jsx\<close> does not parse as written (line 47 closes the arrow
  function with \<open>{}\<close> before its body);
  it is modelled as the evident intent, which is the same gate effect as in
  \<open>Statistics.jsx\<close> with \<open>!== null\<close>.
\<close>

end
